theory Spec2Isabelle
  imports Complex_Main
begin

section \<open>Numbers and characters\<close>

text \<open>
  The generator script \<^verbatim>\<open>scripts/generate-alphabet-paths.ts\<close> computes with JavaScript
  numbers. The embedding takes them as real numbers: arithmetic is exact, and there is no
  NaN and no infinity. \<^verbatim>\<open>Number.POSITIVE_INFINITY\<close> as the start value of a running
  minimum or maximum becomes \<open>None\<close>; a \<^verbatim>\<open>parseFloat\<close> that yields NaN becomes
  \<open>None\<close>. The negative zero, which the script tests for in \<^verbatim>\<open>formatNumber\<close>, is a value
  of its own in the type \<open>jsnumber\<close> of what \<^verbatim>\<open>Number(text)\<close> returns.
\<close>

definition isDigit :: "char \<Rightarrow> bool" where
  "isDigit c \<longleftrightarrow> c \<in> set ''0123456789''"

definition digitValue :: "char \<Rightarrow> nat" where
  "digitValue c = of_char c - 48"

definition digitChar :: "nat \<Rightarrow> char" where
  "digitChar d = char_of (48 + d)"

definition digitsValue :: "string \<Rightarrow> nat" where
  "digitsValue ds = foldl (\<lambda>n c. 10 * n + digitValue c) 0 ds"

text \<open>White space as \<^verbatim>\<open>trim\<close> and \<^verbatim>\<open>parseFloat\<close> skip it (the ASCII part of it).\<close>

definition isSpace :: "char \<Rightarrow> bool" where
  "isSpace c \<longleftrightarrow> c \<in> set [CHR '' '', CHR 0x09, CHR 0x0A, CHR 0x0B, CHR 0x0C, CHR 0x0D]"

subsection \<open>The number pattern of \<^verbatim>\<open>applyCommand\<close>\<close>

text \<open>
  \<^verbatim>\<open>/[+-]?(?:\d*\.\d+|\d+\.?\d*)(?:[eE][+-]?\d+)?/g\<close>: an optional sign, a mantissa, an
  optional exponent. Each scanner returns the text it matched and the rest of the input.
\<close>

definition takeSign :: "string \<Rightarrow> string \<times> string" where
  "takeSign s =
     (case s of
        [] \<Rightarrow> ([], [])
      | c # cs \<Rightarrow> if c = CHR ''+'' \<or> c = CHR ''-'' then ([c], cs) else ([], s))"

definition scanMantissa :: "string \<Rightarrow> (string \<times> string) option" where
  "scanMantissa s =
     (let d1 = takeWhile isDigit s; r1 = dropWhile isDigit s in
      case r1 of
        [] \<Rightarrow> if d1 \<noteq> [] then Some (d1, []) else None
      | c # r2 \<Rightarrow>
          if c = CHR ''.'' then
            (let d2 = takeWhile isDigit r2 in
             if d2 \<noteq> [] then Some (d1 @ [c] @ d2, dropWhile isDigit r2)
             else if d1 \<noteq> [] then Some (d1 @ [c], r2)
             else None)
          else if d1 \<noteq> [] then Some (d1, r1)
          else None)"

definition scanExponent :: "string \<Rightarrow> string \<times> string" where
  "scanExponent s =
     (case s of
        [] \<Rightarrow> ([], [])
      | c # cs \<Rightarrow>
          if c = CHR ''e'' \<or> c = CHR ''E'' then
            (let sr = takeSign cs; ds = takeWhile isDigit (snd sr) in
             if ds \<noteq> [] then (c # fst sr @ ds, dropWhile isDigit (snd sr)) else ([], s))
          else ([], s))"

definition scanNumber :: "string \<Rightarrow> (string \<times> string) option" where
  "scanNumber s =
     (case scanMantissa (snd (takeSign s)) of
        None \<Rightarrow> None
      | Some (m, r1) \<Rightarrow>
          Some (fst (takeSign s) @ m @ fst (scanExponent r1), snd (scanExponent r1)))"

text \<open>
  \<^verbatim>\<open>data.match(pattern)\<close> with the global flag: all matches from left to right; where the
  pattern does not match, the scan moves on by one character. A match is never empty,
  so what is dropped is the match.
\<close>

lemma scanNumber_shorter:
  assumes "scanNumber s = Some (tok, rest)"
  shows "length rest < length s"
proof -
  obtain m r1 where m: "scanMantissa (snd (takeSign s)) = Some (m, r1)"
    and rest: "rest = snd (scanExponent r1)"
    using assms by (auto simp: scanNumber_def split: option.splits)
  have a: "length (snd (takeSign s)) \<le> length s"
    by (cases s) (auto simp: takeSign_def)
  have dw: "\<And>t. length (dropWhile isDigit t) \<le> length t"
    by (simp add: length_dropWhile_le)
  have tw: "\<And>t. takeWhile isDigit t \<noteq> [] \<Longrightarrow> length (dropWhile isDigit t) < length t"
  proof -
    fix t :: string
    assume "takeWhile isDigit t \<noteq> []"
    then have "0 < length (takeWhile isDigit t)" by simp
    moreover have "length (takeWhile isDigit t) + length (dropWhile isDigit t) = length t"
      by (metis length_append takeWhile_dropWhile_id)
    ultimately show "length (dropWhile isDigit t) < length t" by linarith
  qed
  have b: "length r1 < length (snd (takeSign s))"
  proof (cases "dropWhile isDigit (snd (takeSign s))")
    case Nil
    with m have "takeWhile isDigit (snd (takeSign s)) \<noteq> []" and "r1 = []"
      by (auto simp: scanMantissa_def Let_def split: if_splits)
    with tw [of "snd (takeSign s)"] Nil show ?thesis by simp
  next
    case (Cons c r2)
    have l: "Suc (length r2) \<le> length (snd (takeSign s))"
      using dw [of "snd (takeSign s)"] Cons by simp
    from m Cons have "length r1 \<le> length r2 \<or>
        (takeWhile isDigit (snd (takeSign s)) \<noteq> [] \<and> r1 = dropWhile isDigit (snd (takeSign s)))"
      using dw [of r2] by (auto simp: scanMantissa_def Let_def split: if_splits)
    then show ?thesis
    proof
      assume "length r1 \<le> length r2"
      with l show ?thesis by simp
    next
      assume "takeWhile isDigit (snd (takeSign s)) \<noteq> [] \<and> r1 = dropWhile isDigit (snd (takeSign s))"
      with tw [of "snd (takeSign s)"] show ?thesis by simp
    qed
  qed
  have c: "length (snd (scanExponent r1)) \<le> length r1"
  proof (cases r1)
    case Nil
    then show ?thesis by (simp add: scanExponent_def)
  next
    case (Cons e cs)
    have "length (snd (takeSign cs)) \<le> length cs"
      by (cases cs) (auto simp: takeSign_def)
    with dw [of "snd (takeSign cs)"] Cons show ?thesis
      by (auto simp: scanExponent_def Let_def)
  qed
  from a b c rest show ?thesis by simp
qed

function matchNumbers :: "string \<Rightarrow> string list" where
  "matchNumbers [] = []"
| "matchNumbers (c # cs) =
     (case scanNumber (c # cs) of
        None \<Rightarrow> matchNumbers cs
      | Some (tok, rest) \<Rightarrow> tok # matchNumbers rest)"
  by pat_completeness auto
termination
  by (relation "measure length") (auto dest: scanNumber_shorter)

subsection \<open>\<^verbatim>\<open>parseFloat\<close>\<close>

text \<open>
  The value of a decimal literal: sign, integer digits, fraction digits, exponent.
  \<^verbatim>\<open>parseFloat\<close> skips leading white space and reads the longest prefix that is a
  decimal literal, which is what \<open>scanNumber\<close> matches at the start of the text; with
  no such prefix the result is NaN, here \<open>None\<close>. (The literal \<^verbatim>\<open>Infinity\<close> is not
  modelled.)
\<close>

definition exponentValue :: "string \<Rightarrow> int" where
  "exponentValue e =
     (case e of
        [] \<Rightarrow> 0
      | _ # r \<Rightarrow>
          (case r of
             [] \<Rightarrow> 0
           | c # ds \<Rightarrow>
               if c = CHR ''-'' then - int (digitsValue ds)
               else if c = CHR ''+'' then int (digitsValue ds)
               else int (digitsValue r)))"

definition scale10 :: "real \<Rightarrow> int \<Rightarrow> real" where
  "scale10 v e = (if 0 \<le> e then v * 10 ^ nat e else v / 10 ^ nat (- e))"

definition mantissaValue :: "string \<Rightarrow> real" where
  "mantissaValue m =
     (let ip = takeWhile isDigit m; r = dropWhile isDigit m;
          fp = (case r of [] \<Rightarrow> [] | _ # r2 \<Rightarrow> takeWhile isDigit r2)
      in of_nat (digitsValue ip) + of_nat (digitsValue fp) / 10 ^ length fp)"

definition decimalValue :: "string \<Rightarrow> real" where
  "decimalValue t =
     (let sg = fst (takeSign t); r0 = snd (takeSign t);
          m = (case scanMantissa r0 of None \<Rightarrow> [] | Some (m, _) \<Rightarrow> m);
          e = (case scanMantissa r0 of None \<Rightarrow> [] | Some (_, r1) \<Rightarrow> fst (scanExponent r1));
          v = scale10 (mantissaValue m) (exponentValue e)
      in if sg = ''-'' then - v else v)"

definition parseFloat :: "string \<Rightarrow> real option" where
  "parseFloat s =
     (case scanNumber (dropWhile isSpace s) of
        None \<Rightarrow> None
      | Some (tok, _) \<Rightarrow> Some (decimalValue tok))"

section \<open>Data model\<close>

text \<open>
  \<^verbatim>\<open>interface Point { x: number; y: number }\<close> and
  \<^verbatim>\<open>interface Subpath { points: Point[]; closed: boolean }\<close>. The fields are named
  \<open>px\<close>, \<open>py\<close> and \<open>closed_flag\<close> here, to keep \<open>x\<close>, \<open>y\<close> and the topological
  \<open>closed\<close> free.
\<close>

record Point =
  px :: real
  py :: real

record Subpath =
  points :: "Point list"
  closed_flag :: bool

section \<open>parsePathData\<close>

text \<open>The variables that the closures of \<^verbatim>\<open>parsePathData\<close> share.\<close>

record ParseState =
  subpaths :: "Subpath list"
  current :: "Subpath option"
  currentPoint :: "Point option"
  subpathStart :: "Point option"

definition initialState :: ParseState where
  "initialState = \<lparr>subpaths = [], current = None, currentPoint = None, subpathStart = None\<rparr>"

definition flushCurrent :: "ParseState \<Rightarrow> ParseState" where
  "flushCurrent st =
     st\<lparr>subpaths :=
           (case current st of
              None \<Rightarrow> subpaths st
            | Some c \<Rightarrow> if points c \<noteq> [] then subpaths st @ [c] else subpaths st),
        current := None,
        subpathStart := None\<rparr>"

definition toUpperCase :: "char \<Rightarrow> char" where
  "toUpperCase c =
     (if 97 \<le> (of_char c :: nat) \<and> (of_char c :: nat) \<le> 122
      then char_of (of_char c - (32::nat)) else c)"

definition toLowerCase :: "char \<Rightarrow> char" where
  "toLowerCase c =
     (if 65 \<le> (of_char c :: nat) \<and> (of_char c :: nat) \<le> 90
      then char_of (of_char c + (32::nat)) else c)"

text \<open>
  The loop over the coordinate pairs of one command, \<^verbatim>\<open>for (i = 0; i + 1 < numbers.length;
  i += 2)\<close>, with the loop variable \<^verbatim>\<open>isFirstPair\<close> as an argument. A pair with a NaN is
  skipped by \<^verbatim>\<open>continue\<close>, before \<^verbatim>\<open>isFirstPair\<close> is cleared.
\<close>

definition resolvePoint :: "bool \<Rightarrow> Point option \<Rightarrow> real \<Rightarrow> real \<Rightarrow> Point" where
  "resolvePoint isRelative cp vx vy =
     (case cp of
        Some p \<Rightarrow> if isRelative then \<lparr>px = vx + px p, py = vy + py p\<rparr> else \<lparr>px = vx, py = vy\<rparr>
      | None \<Rightarrow> \<lparr>px = vx, py = vy\<rparr>)"

definition startSubpath :: "Point \<Rightarrow> ParseState \<Rightarrow> ParseState" where
  "startSubpath nextPoint st =
     (flushCurrent st)\<lparr>current := Some \<lparr>points = [nextPoint], closed_flag = False\<rparr>,
                        subpathStart := Some nextPoint,
                        currentPoint := Some nextPoint\<rparr>"

definition appendPoint :: "Point \<Rightarrow> ParseState \<Rightarrow> ParseState" where
  "appendPoint nextPoint st =
     (case current st of
        None \<Rightarrow> st\<lparr>current := Some \<lparr>points = [nextPoint], closed_flag = False\<rparr>,
                    subpathStart := Some nextPoint,
                    currentPoint := Some nextPoint\<rparr>
      | Some c \<Rightarrow> st\<lparr>current := Some (c\<lparr>points := points c @ [nextPoint]\<rparr>),
                      currentPoint := Some nextPoint\<rparr>)"

fun pairLoop :: "char \<Rightarrow> bool \<Rightarrow> bool \<Rightarrow> string list \<Rightarrow> ParseState \<Rightarrow> ParseState" where
  "pairLoop command isRelative isFirstPair (a # b # rest) st =
     (case (parseFloat a, parseFloat b) of
        (Some vx, Some vy) \<Rightarrow>
          (let nextPoint = resolvePoint isRelative (currentPoint st) vx vy in
           if command = CHR ''M'' \<and> isFirstPair
           then pairLoop command isRelative False rest (startSubpath nextPoint st)
           else if command = CHR ''M'' \<or> command = CHR ''L''
           then pairLoop command isRelative False rest (appendPoint nextPoint st)
           else pairLoop command isRelative False rest st)
      | _ \<Rightarrow> pairLoop command isRelative isFirstPair rest st)"
| "pairLoop command isRelative isFirstPair numbers st = st"

definition applyCommand :: "char \<Rightarrow> string \<Rightarrow> ParseState \<Rightarrow> ParseState" where
  "applyCommand cmd data st =
     (if toUpperCase cmd = CHR ''Z'' then
        st\<lparr>current := map_option (\<lambda>c. c\<lparr>closed_flag := True\<rparr>) (current st),
           currentPoint := (case subpathStart st of None \<Rightarrow> currentPoint st | Some p \<Rightarrow> Some p)\<rparr>
      else
        (let numbers = matchNumbers data in
         if length numbers < 2 then st
         else pairLoop (toUpperCase cmd) (cmd = toLowerCase cmd) True numbers st))"

text \<open>
  The \<^verbatim>\<open>while\<close> loop over the matches of \<^verbatim>\<open>/[MLmlZz]/g\<close> calls \<^verbatim>\<open>applyCommand\<close> once for
  each command letter, in order, with the text up to the next command letter (or to the
  end) as its data. \<open>splitCommands\<close> lists these calls.
\<close>

definition isCommandChar :: "char \<Rightarrow> bool" where
  "isCommandChar c \<longleftrightarrow> c \<in> set ''MLmlZz''"

fun splitCommands :: "string \<Rightarrow> (char \<times> string) list" where
  "splitCommands [] = []"
| "splitCommands (c # cs) =
     (if isCommandChar c
      then (c, takeWhile (\<lambda>d. \<not> isCommandChar d) cs) # splitCommands cs
      else splitCommands cs)"

definition runCommands :: "ParseState \<Rightarrow> (char \<times> string) list \<Rightarrow> ParseState" where
  "runCommands st cmds = foldl (\<lambda>st (cmd, data). applyCommand cmd data st) st cmds"

definition parsePathData :: "string \<Rightarrow> Subpath list" where
  "parsePathData pathData =
     subpaths (flushCurrent (runCommands initialState (splitCommands pathData)))"

section \<open>formatNumber and serializeSubpaths\<close>

text \<open>
  What \<^verbatim>\<open>Number(text)\<close> returns: a number, the negative zero, or NaN.
\<close>

datatype jsnumber = Num real | NegZero | NaN

fun natDigits :: "nat \<Rightarrow> string" where
  "natDigits n = (if n < 10 then [digitChar n] else natDigits (n div 10) @ [digitChar (n mod 10)])"

declare natDigits.simps [simp del]

definition padLeft :: "nat \<Rightarrow> string \<Rightarrow> string" where
  "padLeft n s = replicate (n - length s) (CHR ''0'') @ s"

definition stripZeros :: "string \<Rightarrow> string" where
  "stripZeros s = rev (dropWhile (\<lambda>c. c = CHR ''0'') (rev s))"

text \<open>
  \<^verbatim>\<open>Number.prototype.toString\<close> in base 10, on the numbers that \<^verbatim>\<open>formatNumber\<close> gives it:
  zero; a magnitude below \<open>10^21\<close> that is a multiple of \<open>10^-6\<close>, printed as integer
  digits and, unless they are all zero, a point and the fraction digits without trailing
  zeros; a magnitude from \<open>10^21\<close> on, printed with an exponent (a double of that size is an
  integer, so the digits are those of the integer part).
\<close>

definition fractionText :: "nat \<Rightarrow> string" where
  "fractionText fr = (if fr = 0 then [] else CHR ''.'' # stripZeros (padLeft 6 (natDigits fr)))"

definition plainText :: "real \<Rightarrow> string" where
  "plainText a =
     (let ip = nat \<lfloor>a\<rfloor>; fr = nat \<lfloor>(a - of_nat ip) * 10 ^ 6\<rfloor>
      in natDigits ip @ fractionText fr)"

definition exponentText :: "nat \<Rightarrow> string" where
  "exponentText n =
     (let ds = natDigits n; sig = stripZeros ds
      in (case sig of [] \<Rightarrow> [] | d # r \<Rightarrow> if r = [] then [d] else d # CHR ''.'' # r)
         @ ''e+'' @ natDigits (length ds - 1))"

definition toString :: "jsnumber \<Rightarrow> string" where
  "toString v =
     (case v of
        NaN \<Rightarrow> ''NaN''
      | NegZero \<Rightarrow> ''0''
      | Num r \<Rightarrow>
          if r = 0 then ''0''
          else (if r < 0 then ''-'' else [])
               @ (if 10 ^ 21 \<le> \<bar>r\<bar> then exponentText (nat \<lfloor>\<bar>r\<bar>\<rfloor>) else plainText \<bar>r\<bar>))"

text \<open>
  \<^verbatim>\<open>value.toFixed(6)\<close>: from \<open>10^21\<close> on it is \<^verbatim>\<open>toString\<close>; below, the sign (also of a
  negative value that rounds to zero), and the integer \<open>n\<close> nearest to \<open>|value| * 10^6\<close>
  (the larger one of two) with a point before its last six digits.
\<close>

definition toFixed6 :: "real \<Rightarrow> string" where
  "toFixed6 v =
     (if 10 ^ 21 \<le> \<bar>v\<bar> then toString (Num v)
      else
        (let n = nat \<lfloor>\<bar>v\<bar> * 10 ^ 6 + 1 / 2\<rfloor>; m = padLeft 7 (natDigits n)
         in (if v < 0 then ''-'' else [])
            @ take (length m - 6) m @ ''.'' @ drop (length m - 6) m))"

text \<open>\<^verbatim>\<open>Number(text)\<close> on a text that is one decimal literal; anything else is NaN.\<close>

definition Number_of :: "string \<Rightarrow> jsnumber" where
  "Number_of s =
     (case scanNumber s of
        None \<Rightarrow> NaN
      | Some (tok, rest) \<Rightarrow>
          if rest \<noteq> [] then NaN
          else if decimalValue tok = 0 \<and> fst (takeSign tok) = ''-'' then NegZero
          else Num (decimalValue tok))"

definition formatNumber :: "real \<Rightarrow> string" where
  "formatNumber v =
     (let rounded = Number_of (toFixed6 v);
          generated = (if rounded = NegZero then Num 0 else rounded)
      in toString generated)"

definition pointText :: "char \<Rightarrow> Point \<Rightarrow> string" where
  "pointText c p = c # formatNumber (px p) @ '' '' @ formatNumber (py p)"

definition subpathParts :: "Subpath \<Rightarrow> string list" where
  "subpathParts sp =
     (case points sp of
        [] \<Rightarrow> []
      | first # rest \<Rightarrow>
          pointText (CHR ''M'') first # map (pointText (CHR ''L'')) rest
          @ (if closed_flag sp then [''Z''] else []))"

fun join :: "string \<Rightarrow> string list \<Rightarrow> string" where
  "join sep [] = []"
| "join sep [p] = p"
| "join sep (p # q # ps) = p @ sep @ join sep (q # ps)"

definition serializeSubpaths :: "Subpath list \<Rightarrow> string" where
  "serializeSubpaths sps = join '' '' (concat (map subpathParts sps))"

section \<open>Bounding boxes and transforms\<close>

text \<open>
  A running minimum or maximum that starts at an infinity: \<open>None\<close> until the first
  value. \<^verbatim>\<open>Number.isFinite\<close> of the result is then \<open>\<noteq> None\<close>.
\<close>

fun minAcc :: "real option \<Rightarrow> real \<Rightarrow> real option" where
  "minAcc None v = Some v"
| "minAcc (Some m) v = Some (min m v)"

fun maxAcc :: "real option \<Rightarrow> real \<Rightarrow> real option" where
  "maxAcc None v = Some v"
| "maxAcc (Some m) v = Some (max m v)"

definition runningMin :: "real list \<Rightarrow> real option" where
  "runningMin vs = foldl minAcc None vs"

definition runningMax :: "real list \<Rightarrow> real option" where
  "runningMax vs = foldl maxAcc None vs"

record BoundingBox =
  minX :: real
  maxX :: real
  minY :: real
  maxY :: real

definition allPoints :: "Subpath list \<Rightarrow> Point list" where
  "allPoints sps = concat (map points sps)"

definition getBoundingBox :: "Subpath list \<Rightarrow> BoundingBox" where
  "getBoundingBox sps =
     (let ps = allPoints sps in
      case (runningMin (map px ps), runningMax (map px ps),
            runningMin (map (\<lambda>p. 1 - py p) ps), runningMax (map (\<lambda>p. 1 - py p) ps)) of
        (Some x0, Some x1, Some y0, Some y1) \<Rightarrow> \<lparr>minX = x0, maxX = x1, minY = y0, maxY = y1\<rparr>
      | _ \<Rightarrow> \<lparr>minX = 0, maxX = 0, minY = 0, maxY = 0\<rparr>)"

definition getMaxYFromSubpaths :: "Subpath list \<Rightarrow> real" where
  "getMaxYFromSubpaths sps =
     (case runningMax (map py (allPoints sps)) of None \<Rightarrow> 0 | Some m \<Rightarrow> m)"

definition shiftSubpathsY :: "Subpath list \<Rightarrow> real \<Rightarrow> Subpath list" where
  "shiftSubpathsY sps deltaY =
     map (\<lambda>sp. \<lparr>points = map (\<lambda>p. \<lparr>px = px p, py = py p + deltaY\<rparr>) (points sp),
                closed_flag = closed_flag sp\<rparr>) sps"

definition shiftSubpathsX :: "Subpath list \<Rightarrow> real \<Rightarrow> Subpath list" where
  "shiftSubpathsX sps deltaX =
     map (\<lambda>sp. \<lparr>points = map (\<lambda>p. \<lparr>px = px p + deltaX, py = py p\<rparr>) (points sp),
                closed_flag = closed_flag sp\<rparr>) sps"

definition transformPoint :: "real \<Rightarrow> real \<Rightarrow> real \<Rightarrow> real \<Rightarrow> Point \<Rightarrow> Point" where
  "transformPoint scaleX scaleY xShift yShift p =
     (let yCartesian = 1 - py p;
          xScaled = px p * scaleX + xShift;
          yScaled = yCartesian * scaleY + yShift
      in \<lparr>px = xScaled, py = 1 - yScaled\<rparr>)"

definition transformSubpaths :: "Subpath list \<Rightarrow> real \<Rightarrow> real \<Rightarrow> real \<Rightarrow> real \<Rightarrow> Subpath list" where
  "transformSubpaths sps scaleX scaleY xShift yShift =
     map (\<lambda>sp. \<lparr>points = map (transformPoint scaleX scaleY xShift yShift) (points sp),
                closed_flag = closed_flag sp\<rparr>) sps"

section \<open>adjustDotSubpath\<close>

text \<open>
  The search loop keeps \<^verbatim>\<open>dotIndex\<close> (\<open>-1\<close> at the start), \<^verbatim>\<open>dotMinY\<close> (infinite at the
  start, here \<open>None\<close>) and \<^verbatim>\<open>dotBbox\<close> (\<^verbatim>\<open>null\<close> at the start). The box of one subpath is
  taken in path coordinates, without the flip of \<open>getBoundingBox\<close>.
\<close>

record DotSearch =
  dotIndex :: int
  dotMinY :: "real option"
  dotBbox :: "BoundingBox option"

definition subpathBox :: "Subpath \<Rightarrow> BoundingBox option" where
  "subpathBox sp =
     (case (runningMin (map px (points sp)), runningMax (map px (points sp)),
            runningMin (map py (points sp)), runningMax (map py (points sp))) of
        (Some x0, Some x1, Some y0, Some y1) \<Rightarrow> Some \<lparr>minX = x0, maxX = x1, minY = y0, maxY = y1\<rparr>
      | _ \<Rightarrow> None)"

definition dotStep :: "DotSearch \<Rightarrow> nat \<times> Subpath \<Rightarrow> DotSearch" where
  "dotStep ds isp =
     (case subpathBox (snd isp) of
        None \<Rightarrow> ds
      | Some b \<Rightarrow>
          (let width = maxX b - minX b; height = maxY b - minY b in
           if height = 0 \<and> width > 0
              \<and> (case dotMinY ds of None \<Rightarrow> True | Some m \<Rightarrow> minY b < m)
           then \<lparr>dotIndex = int (fst isp), dotMinY = Some (minY b), dotBbox = Some b\<rparr>
           else ds))"

definition dotSearch :: "Subpath list \<Rightarrow> DotSearch" where
  "dotSearch sps =
     foldl dotStep \<lparr>dotIndex = - 1, dotMinY = None, dotBbox = None\<rparr> (zip [0..<length sps] sps)"

definition adjustDotSubpath :: "Subpath list \<Rightarrow> string \<Rightarrow> Subpath list" where
  "adjustDotSubpath sps char =
     (if char \<noteq> ''i'' \<and> char \<noteq> ''j'' then sps
      else
        (let ds = dotSearch sps in
         case dotBbox ds of
           None \<Rightarrow> sps
         | Some b \<Rightarrow>
             if dotIndex ds < 0 then sps
             else
               (let width = maxX b - minX b in
                if \<not> (width > 0) then sps
                else
                  (let targetWidth = min width (8 / 100);
                       scale = targetWidth / width;
                       centerX = (minX b + maxX b) / 2
                   in map (\<lambda>(index, sp).
                            if int index \<noteq> dotIndex ds then sp
                            else \<lparr>points = map (\<lambda>p. \<lparr>px = centerX + (px p - centerX) * scale,
                                                        py = py p\<rparr>) (points sp),
                                  closed_flag = closed_flag sp\<rparr>)
                          (zip [0..<length sps] sps)))))"

section \<open>The reference typeface\<close>

text \<open>
  The reference font is read with a library that is not part of the repository; the
  model takes what the script reads from it as a parameter: the units per em and, for a
  character, the bounding box and the advance width of its glyph
  (\<^verbatim>\<open>glyph.advanceWidth || 0\<close>).
\<close>

record FontGlyph =
  bbox_x1 :: real
  bbox_y1 :: real
  bbox_x2 :: real
  bbox_y2 :: real
  glyphAdvanceWidth :: real

record Font =
  unitsPerEm :: real
  charToGlyph :: "string \<Rightarrow> FontGlyph"

record ReferenceMetrics =
  width :: real
  height :: real
  advanceWidth :: real
  leftSideBearing :: real
  rightSideBearing :: real
  yMin :: real
  yMax :: real

definition UNITS_PER_EM :: real where "UNITS_PER_EM = 1000"
definition DESIGN_HEIGHT :: real where "DESIGN_HEIGHT = UNITS_PER_EM"
definition STROKE_WIDTH :: real where "STROKE_WIDTH = 0"
definition VERTICAL_SCALE :: real where "VERTICAL_SCALE = 93 / 100"
definition HORIZONTAL_SCALE :: real where "HORIZONTAL_SCALE = 1"

definition getReferenceGlyphMetrics :: "Font \<Rightarrow> string \<Rightarrow> ReferenceMetrics option" where
  "getReferenceGlyphMetrics font char =
     (let referenceScale = UNITS_PER_EM / unitsPerEm font;
          glyph = charToGlyph font char;
          w = (bbox_x2 glyph - bbox_x1 glyph) * referenceScale;
          h = (bbox_y2 glyph - bbox_y1 glyph) * referenceScale;
          adv = glyphAdvanceWidth glyph * referenceScale
      in if \<not> (w > 0) \<or> \<not> (h > 0) \<or> \<not> (adv > 0) then None
         else Some \<lparr>width = w, height = h, advanceWidth = adv,
                    leftSideBearing = bbox_x1 glyph * referenceScale,
                    rightSideBearing = adv - bbox_x2 glyph * referenceScale,
                    yMin = bbox_y1 glyph * referenceScale,
                    yMax = bbox_y2 glyph * referenceScale\<rparr>)"

section \<open>Pass 1: the transform of each glyph\<close>

text \<open>
  The glyph table \<^verbatim>\<open>svgAlphabet\<close> is an object from characters to path texts; the model
  is the list of its entries in the order of \<^verbatim>\<open>Object.entries\<close>. A path text is falsy
  when it is missing or empty.
\<close>

type_synonym GlyphTable = "(string \<times> string) list"

definition REFERENCE_CHAR :: string where "REFERENCE_CHAR = ''H''"

definition referenceCharSubpaths :: "GlyphTable \<Rightarrow> Subpath list" where
  "referenceCharSubpaths table =
     (case map_of table REFERENCE_CHAR of
        None \<Rightarrow> []
      | Some referenceCharPath \<Rightarrow>
          if referenceCharPath \<noteq> [] then parsePathData referenceCharPath else [])"

definition baseScaleX :: "Font \<Rightarrow> GlyphTable \<Rightarrow> real" where
  "baseScaleX font table =
     (let referenceCharBbox = getBoundingBox (referenceCharSubpaths table);
          referenceCharWidth = (maxX referenceCharBbox - minX referenceCharBbox) * UNITS_PER_EM
      in case getReferenceGlyphMetrics font REFERENCE_CHAR of
           None \<Rightarrow> HORIZONTAL_SCALE
         | Some referenceCharMetrics \<Rightarrow>
             if referenceCharWidth > 0
             then (width referenceCharMetrics / referenceCharWidth) * HORIZONTAL_SCALE
             else HORIZONTAL_SCALE)"

definition baseScaleY :: "Font \<Rightarrow> GlyphTable \<Rightarrow> real" where
  "baseScaleY font table =
     (let referenceCharBbox = getBoundingBox (referenceCharSubpaths table);
          referenceCharHeight = (maxY referenceCharBbox - minY referenceCharBbox) * DESIGN_HEIGHT
      in case getReferenceGlyphMetrics font REFERENCE_CHAR of
           None \<Rightarrow> VERTICAL_SCALE
         | Some referenceCharMetrics \<Rightarrow>
             if referenceCharHeight > 0
             then (height referenceCharMetrics / referenceCharHeight) * VERTICAL_SCALE
             else VERTICAL_SCALE)"

text \<open>
  The horizontal shift. In \<^verbatim>\<open>scripts/generate-alphabet-paths.ts\<close> it is
  \<^verbatim>\<open>const xShift = -xMinScaled\<close>. The other copy of the script in the repository, the one
  without the pass that unifies the advance, has the shift that centres a glyph in a
  cell of width 1; it is \<open>xShift_centered\<close> here.
\<close>

definition xShift :: "real \<Rightarrow> real \<Rightarrow> real" where
  "xShift xMinScaled xMaxScaled = - xMinScaled"

definition xShift_centered :: "real \<Rightarrow> real \<Rightarrow> real" where
  "xShift_centered xMinScaled xMaxScaled =
     (let scaledWidth = xMaxScaled - xMinScaled; targetWidth = 1 in
      if scaledWidth \<le> targetWidth then (targetWidth - scaledWidth) / 2 - xMinScaled
      else - xMinScaled)"

definition useReferenceSpacing :: bool where "useReferenceSpacing = True"

definition yShift :: "ReferenceMetrics option \<Rightarrow> real \<Rightarrow> real" where
  "yShift referenceMetrics yMaxScaled =
     (case referenceMetrics of
        Some m \<Rightarrow> if useReferenceSpacing then yMax m / DESIGN_HEIGHT - yMaxScaled else 0
      | None \<Rightarrow> 0)"

text \<open>The body of the first loop over the entries, for one character.\<close>

definition normalizeGlyph :: "Font \<Rightarrow> real \<Rightarrow> real \<Rightarrow> string \<Rightarrow> string \<Rightarrow> string" where
  "normalizeGlyph font scaleX scaleY char pathData =
     (let sps = parsePathData pathData in
      if sps = [] then pathData
      else
        (let bbox = getBoundingBox sps;
             strokePad = STROKE_WIDTH / 2;
             paddedMinX = minX bbox - strokePad;
             paddedMaxX = maxX bbox + strokePad;
             paddedMaxY = maxY bbox + strokePad;
             referenceMetrics = getReferenceGlyphMetrics font char;
             xMinScaled = paddedMinX * scaleX;
             xMaxScaled = paddedMaxX * scaleX;
             yMaxScaled = paddedMaxY * scaleY;
             transformed = transformSubpaths sps scaleX scaleY
                             (xShift xMinScaled xMaxScaled) (yShift referenceMetrics yMaxScaled);
             adjusted = adjustDotSubpath transformed char
         in serializeSubpaths adjusted))"

definition pass1 :: "Font \<Rightarrow> GlyphTable \<Rightarrow> GlyphTable" where
  "pass1 font table =
     map (\<lambda>(char, pathData).
            (char, normalizeGlyph font (baseScaleX font table) (baseScaleY font table) char pathData))
         table"

section \<open>Pass 2: the underscore at the depth of the descenders\<close>

definition setGlyph :: "string \<Rightarrow> string \<Rightarrow> GlyphTable \<Rightarrow> GlyphTable" where
  "setGlyph char pathData table = map (\<lambda>(c, p). if c = char then (c, pathData) else (c, p)) table"

definition descenderChars :: "string list" where
  "descenderChars = [''g'', ''j'', ''p'', ''q'', ''y'']"

definition descenderTargetY :: "GlyphTable \<Rightarrow> real" where
  "descenderTargetY table =
     foldl (\<lambda>target char.
              case map_of table char of
                None \<Rightarrow> target
              | Some pathData \<Rightarrow>
                  if pathData = [] then target
                  else max target (getMaxYFromSubpaths (parsePathData pathData)))
           0 descenderChars"

definition pass2 :: "GlyphTable \<Rightarrow> GlyphTable" where
  "pass2 table =
     (case map_of table ''_'' of
        None \<Rightarrow> table
      | Some underscorePath \<Rightarrow>
          if underscorePath \<noteq> [] \<and> descenderTargetY table > 0 then
            (let underscoreSubpaths = parsePathData underscorePath;
                 underscoreMaxY = getMaxYFromSubpaths underscoreSubpaths;
                 deltaY = descenderTargetY table - underscoreMaxY
             in if \<bar>deltaY\<bar> > 1 / 10 ^ 6
                then setGlyph ''_'' (serializeSubpaths (shiftSubpathsY underscoreSubpaths deltaY)) table
                else table)
          else table)"

section \<open>Pass 3: one advance for all glyphs\<close>

text \<open>
  \<^verbatim>\<open>getLineSegments\<close> reads a path text by splitting it at \<^verbatim>\<open>M\<close>, \<^verbatim>\<open>L\<close> and the space,
  not with \<open>parsePathData\<close>. A coordinate that \<^verbatim>\<open>parseFloat\<close> cannot read, or that is
  missing, is NaN, here \<open>None\<close>.
\<close>

fun splitOn :: "char \<Rightarrow> string \<Rightarrow> string list" where
  "splitOn sep [] = [[]]"
| "splitOn sep (c # cs) =
     (if c = sep then [] # splitOn sep cs
      else (case splitOn sep cs of [] \<Rightarrow> [[c]] | p # ps \<Rightarrow> (c # p) # ps))"

definition trim :: "string \<Rightarrow> string" where
  "trim s = rev (dropWhile isSpace (rev (dropWhile isSpace s)))"

record LineSegment =
  x1 :: "real option"
  y1 :: "real option"
  x2 :: "real option"
  y2 :: "real option"

definition pairOf :: "string \<Rightarrow> real option list" where
  "pairOf pr = map parseFloat (splitOn (CHR '' '') (trim pr))"

definition coordAt :: "real option list \<Rightarrow> nat \<Rightarrow> real option" where
  "coordAt pr i = (if i < length pr then pr ! i else None)"

fun segmentsOf :: "real option list list \<Rightarrow> LineSegment list" where
  "segmentsOf (a # b # rest) =
     \<lparr>x1 = coordAt a 0, y1 = map_option (\<lambda>v. 1 - v) (coordAt a 1),
      x2 = coordAt b 0, y2 = map_option (\<lambda>v. 1 - v) (coordAt b 1)\<rparr> # segmentsOf (b # rest)"
| "segmentsOf seg = []"

definition getLineSegments :: "string \<Rightarrow> LineSegment list" where
  "getLineSegments pathData =
     concat (map (\<lambda>seg. segmentsOf (map pairOf (splitOn (CHR ''L'') seg)))
                 (tl (splitOn (CHR ''M'') pathData)))"

text \<open>
  \<^verbatim>\<open>Math.min\<close> and \<^verbatim>\<open>Math.max\<close> return NaN as soon as one argument is NaN, so the width
  of a glyph with a NaN abscissa is NaN.
\<close>

definition getGlyphWidthRatio :: "LineSegment list \<Rightarrow> real \<Rightarrow> real option" where
  "getGlyphWidthRatio segments strokeWidthRatio =
     (if segments = [] then Some 0
      else
        (let radius = strokeWidthRatio / 2 in
         case those (concat (map (\<lambda>sg. [x1 sg, x2 sg]) segments)) of
           None \<Rightarrow> None
         | Some xs \<Rightarrow>
             (case (runningMin (map (\<lambda>v. v - radius) xs), runningMax (map (\<lambda>v. v + radius) xs)) of
                (Some lo, Some hi) \<Rightarrow> Some (hi - lo)
              | _ \<Rightarrow> None)))"

definition strokeWidthRatio :: real where "strokeWidthRatio = 9 / 100"

definition glyphWidth :: "string \<Rightarrow> real option" where
  "glyphWidth pathData = getGlyphWidthRatio (getLineSegments pathData) strokeWidthRatio"

definition maxNaN :: "real option \<Rightarrow> real option \<Rightarrow> real option" where
  "maxNaN a b = (case (a, b) of (Some u, Some v) \<Rightarrow> Some (max u v) | _ \<Rightarrow> None)"

definition glyphWidthRatio :: "GlyphTable \<Rightarrow> real option" where
  "glyphWidthRatio table =
     foldl (\<lambda>maxWidth (char, pathData). maxNaN maxWidth (glyphWidth pathData)) (Some 0) table"

text \<open>
  The loop that centres each glyph in the common width. With a NaN width the script
  goes on and writes NaN coordinates; the model stops there with \<open>None\<close>.
\<close>

definition centerGlyph :: "real \<Rightarrow> string \<Rightarrow> string option" where
  "centerGlyph gw pathData =
     (case glyphWidth pathData of
        None \<Rightarrow> None
      | Some w \<Rightarrow>
          (let centerDeltaX = (gw - w) / 2 in
           if \<bar>centerDeltaX\<bar> \<le> 1 / 10 ^ 6 then Some pathData
           else Some (serializeSubpaths (shiftSubpathsX (parsePathData pathData) centerDeltaX))))"

definition pass3 :: "GlyphTable \<Rightarrow> GlyphTable option" where
  "pass3 table =
     (case glyphWidthRatio table of
        None \<Rightarrow> None
      | Some gw \<Rightarrow>
          those (map (\<lambda>(char, pathData). map_option (Pair char) (centerGlyph gw pathData)) table))"

section \<open>The whole run\<close>

text \<open>
  One run of the script: the three passes, then the width that is written out as
  \<^verbatim>\<open>glyphWidthRatio\<close> and \<^verbatim>\<open>spaceWidthRatio\<close>, computed again from the final table
  (\<^verbatim>\<open>finalGlyphWidthRatio\<close>).
\<close>

definition generatedAlphabet :: "Font \<Rightarrow> GlyphTable \<Rightarrow> GlyphTable option" where
  "generatedAlphabet font table = pass3 (pass2 (pass1 font table))"

definition finalGlyphWidthRatio :: "Font \<Rightarrow> GlyphTable \<Rightarrow> real option" where
  "finalGlyphWidthRatio font table =
     (case generatedAlphabet font table of None \<Rightarrow> None | Some t \<Rightarrow> glyphWidthRatio t)"

section \<open>Facts about digits\<close>

lemma digitChar_simps:
  "digitChar 0 = CHR ''0''" "digitChar 1 = CHR ''1''" "digitChar 2 = CHR ''2''"
  "digitChar 3 = CHR ''3''" "digitChar 4 = CHR ''4''" "digitChar 5 = CHR ''5''"
  "digitChar 6 = CHR ''6''" "digitChar 7 = CHR ''7''" "digitChar 8 = CHR ''8''"
  "digitChar 9 = CHR ''9''" "digitChar (Suc 0) = CHR ''1''"
  by (simp_all add: digitChar_def char_of_eq_iff)

lemma isDigit_simps:
  "isDigit CHR ''0''" "isDigit CHR ''1''" "isDigit CHR ''2''" "isDigit CHR ''3''"
  "isDigit CHR ''4''" "isDigit CHR ''5''" "isDigit CHR ''6''" "isDigit CHR ''7''"
  "isDigit CHR ''8''" "isDigit CHR ''9''"
  "\<not> isDigit CHR '' ''" "\<not> isDigit CHR ''.''" "\<not> isDigit CHR ''-''" "\<not> isDigit CHR ''+''"
  "\<not> isDigit CHR ''e''" "\<not> isDigit CHR ''E''" "\<not> isDigit CHR ''M''" "\<not> isDigit CHR ''L''"
  "\<not> isDigit CHR ''Z''" "\<not> isDigit CHR ''m''" "\<not> isDigit CHR ''l''" "\<not> isDigit CHR ''z''"
  by (simp_all add: isDigit_def)

lemma digitValue_simps:
  "digitValue CHR ''0'' = 0" "digitValue CHR ''1'' = 1" "digitValue CHR ''2'' = 2"
  "digitValue CHR ''3'' = 3" "digitValue CHR ''4'' = 4" "digitValue CHR ''5'' = 5"
  "digitValue CHR ''6'' = 6" "digitValue CHR ''7'' = 7" "digitValue CHR ''8'' = 8"
  "digitValue CHR ''9'' = 9"
  by (simp_all add: digitValue_def)

lemma digit_cases:
  assumes "d < (10::nat)"
  obtains "d = 0" | "d = 1" | "d = 2" | "d = 3" | "d = 4" | "d = 5" | "d = 6" | "d = 7"
    | "d = 8" | "d = 9"
proof -
  from assms have "d = 0 \<or> d = 1 \<or> d = 2 \<or> d = 3 \<or> d = 4 \<or> d = 5 \<or> d = 6 \<or> d = 7
      \<or> d = 8 \<or> d = 9"
    by arith
  then show ?thesis using that by blast
qed

lemma isDigit_digitChar: "d < 10 \<Longrightarrow> isDigit (digitChar d)"
  by (erule digit_cases) (simp_all add: digitChar_simps isDigit_simps)

lemma digitValue_digitChar: "d < 10 \<Longrightarrow> digitValue (digitChar d) = d"
  by (erule digit_cases) (simp_all add: digitChar_simps digitValue_simps)

lemma isDigit_cases:
  assumes "isDigit c"
  obtains d where "d < 10" and "c = digitChar d"
proof -
  from assms consider "c = CHR ''0''" | "c = CHR ''1''" | "c = CHR ''2''" | "c = CHR ''3''" | "c = CHR ''4''" | "c = CHR ''5''" | "c = CHR ''6''" | "c = CHR ''7''" | "c = CHR ''8''" | "c = CHR ''9''"
    by (auto simp: isDigit_def)
  then show ?thesis
  proof cases
    case 1
    then show ?thesis using that [of 0] by (simp add: digitChar_simps)
  next
    case 2
    then show ?thesis using that [of 1] by (simp add: digitChar_simps)
  next
    case 3
    then show ?thesis using that [of 2] by (simp add: digitChar_simps)
  next
    case 4
    then show ?thesis using that [of 3] by (simp add: digitChar_simps)
  next
    case 5
    then show ?thesis using that [of 4] by (simp add: digitChar_simps)
  next
    case 6
    then show ?thesis using that [of 5] by (simp add: digitChar_simps)
  next
    case 7
    then show ?thesis using that [of 6] by (simp add: digitChar_simps)
  next
    case 8
    then show ?thesis using that [of 7] by (simp add: digitChar_simps)
  next
    case 9
    then show ?thesis using that [of 8] by (simp add: digitChar_simps)
  next
    case 10
    then show ?thesis using that [of 9] by (simp add: digitChar_simps)
  qed
qed

lemma natDigits_small: "n < 10 \<Longrightarrow> natDigits n = [digitChar n]"
  by (simp add: natDigits.simps)

lemma natDigits_large: "10 \<le> n \<Longrightarrow> natDigits n = natDigits (n div 10) @ [digitChar (n mod 10)]"
  by (subst natDigits.simps) simp

lemma natDigits_nonempty: "natDigits n \<noteq> []"
  by (subst natDigits.simps) simp

lemma natDigits_digits: "c \<in> set (natDigits n) \<Longrightarrow> isDigit c"
proof (induction n arbitrary: c rule: natDigits.induct)
  case (1 n)
  show ?case
  proof (cases "n < 10")
    case True
    with "1.prems" show ?thesis by (simp add: natDigits_small isDigit_digitChar)
  next
    case False
    with "1.prems" have "c \<in> set (natDigits (n div 10)) \<or> c = digitChar (n mod 10)"
      by (auto simp: natDigits_large)
    with False "1.IH" show ?thesis by (auto simp: isDigit_digitChar)
  qed
qed

lemma digitsValue_snoc: "digitsValue (ds @ [c]) = 10 * digitsValue ds + digitValue c"
  by (simp add: digitsValue_def)

lemma digitsValue_Nil: "digitsValue [] = 0"
  by (simp add: digitsValue_def)

lemma digitsValue_natDigits: "digitsValue (natDigits n) = n"
proof (induction n rule: natDigits.induct)
  case (1 n)
  show ?case
  proof (cases "n < 10")
    case True
    then show ?thesis
      using digitsValue_snoc [of "[]" "digitChar n"]
      by (simp add: natDigits_small digitValue_digitChar digitsValue_Nil)
  next
    case False
    with "1.IH" show ?thesis
      by (simp add: natDigits_large digitsValue_snoc digitValue_digitChar)
  qed
qed

lemma digitsValue_append:
  "digitsValue (a @ b) = digitsValue a * 10 ^ length b + digitsValue b"
proof (induction b rule: rev_induct)
  case Nil
  then show ?case by (simp add: digitsValue_Nil)
next
  case (snoc c b)
  have "digitsValue (a @ b @ [c]) = 10 * digitsValue (a @ b) + digitValue c"
    using digitsValue_snoc [of "a @ b" c] by simp
  with snoc show ?case by (simp add: digitsValue_snoc algebra_simps)
qed

lemma digitsValue_zeros: "digitsValue (replicate k (CHR ''0'')) = 0"
proof (induction k)
  case 0
  then show ?case by (simp add: digitsValue_Nil)
next
  case (Suc k)
  have "replicate (Suc k) (CHR ''0'') = replicate k (CHR ''0'') @ [CHR ''0'']"
    by (simp add: replicate_append_same)
  with Suc show ?case by (simp only: digitsValue_snoc digitValue_simps)
qed

lemma digitsValue_bound:
  "\<forall>c\<in>set ds. isDigit c \<Longrightarrow> digitsValue ds < 10 ^ length ds"
proof (induction ds rule: rev_induct)
  case Nil
  then show ?case by (simp add: digitsValue_Nil)
next
  case (snoc c ds)
  then have "isDigit c" by simp
  then obtain d where "d < 10" "c = digitChar d" by (rule isDigit_cases)
  then have "digitValue c < 10" by (simp add: digitValue_digitChar)
  moreover from snoc have "digitsValue ds < 10 ^ length ds" by simp
  ultimately show ?case by (simp add: digitsValue_snoc)
qed

lemma length_natDigits_le: "n < 10 ^ k \<Longrightarrow> 0 < k \<Longrightarrow> length (natDigits n) \<le> k"
proof (induction n arbitrary: k rule: natDigits.induct)
  case (1 n)
  show ?case
  proof (cases "n < 10")
    case True
    with "1.prems" show ?thesis by (simp add: natDigits_small)
  next
    case False
    with "1.prems" obtain j where k: "k = Suc j" by (cases k) auto
    with False "1.prems" have "0 < j" by (cases j) auto
    moreover from "1.prems" k have "n div 10 < 10 ^ j"
      by (simp add: less_mult_imp_div_less mult.commute)
    ultimately have "length (natDigits (n div 10)) \<le> j" using "1.IH" False by simp
    with False k show ?thesis by (simp add: natDigits_large)
  qed
qed

lemma length_natDigits_ge: "10 ^ k \<le> n \<Longrightarrow> k < length (natDigits n)"
proof (induction n arbitrary: k rule: natDigits.induct)
  case (1 n)
  show ?case
  proof (cases k)
    case 0
    then show ?thesis using natDigits_nonempty [of n] by (cases "natDigits n") auto
  next
    case (Suc j)
    with "1.prems" have n: "\<not> n < 10"
      by (metis One_nat_def le_trans not_less one_le_numeral one_le_power power_Suc0_right
          power_increasing power_one_right zero_less_Suc Suc_leI)
    from "1.prems" Suc have "10 ^ j \<le> n div 10"
      by (simp add: less_eq_div_iff_mult_less_eq mult.commute)
    with "1.IH" n have "j < length (natDigits (n div 10))" by simp
    with n Suc show ?thesis by (simp add: natDigits_large)
  qed
qed

section \<open>Scanning a number text\<close>

text \<open>
  The texts that \<open>toString\<close> and \<open>toFixed6\<close> produce: an optional minus sign, integer
  digits, optional fraction digits after a point, an optional exponent after \<open>e+\<close>.
\<close>

definition numberText :: "bool \<Rightarrow> string \<Rightarrow> string \<Rightarrow> string \<Rightarrow> string" where
  "numberText neg ip fp ex =
     (if neg then ''-'' else []) @ ip @ (if fp = [] then [] else CHR ''.'' # fp)
     @ (if ex = [] then [] else CHR ''e'' # CHR ''+'' # ex)"

definition numberValue :: "bool \<Rightarrow> string \<Rightarrow> string \<Rightarrow> string \<Rightarrow> real" where
  "numberValue neg ip fp ex =
     (if neg then - 1 else 1)
     * ((real (digitsValue ip) + real (digitsValue fp) / 10 ^ length fp) * 10 ^ digitsValue ex)"

definition digitText :: "string \<Rightarrow> bool" where
  "digitText ds \<longleftrightarrow> (\<forall>c\<in>set ds. isDigit c)"

text \<open>What may follow a number text, for the pattern to stop where the text ends.\<close>

definition numberEnd :: "string \<Rightarrow> bool" where
  "numberEnd r \<longleftrightarrow>
     (case r of [] \<Rightarrow> True
      | c # _ \<Rightarrow> \<not> isDigit c \<and> c \<noteq> CHR ''.'' \<and> c \<noteq> CHR ''e'' \<and> c \<noteq> CHR ''E'')"

lemma digits_then:
  assumes "digitText ds" and "case r of [] \<Rightarrow> True | c # _ \<Rightarrow> \<not> isDigit c"
  shows "takeWhile isDigit (ds @ r) = ds" and "dropWhile isDigit (ds @ r) = r"
proof -
  from assms(2) have r: "takeWhile isDigit r = []" "dropWhile isDigit r = r"
    by (cases r; simp)+
  from assms(1) have "\<And>c. c \<in> set ds \<Longrightarrow> isDigit c" by (simp add: digitText_def)
  then show "takeWhile isDigit (ds @ r) = ds" and "dropWhile isDigit (ds @ r) = r"
    using r by (simp_all add: takeWhile_append2 dropWhile_append2)
qed

lemma digits_only:
  assumes "digitText ds"
  shows "takeWhile isDigit ds = ds" and "dropWhile isDigit ds = []"
  using digits_then [OF assms, of "[]"] by simp_all

lemma digit_not_sign: "isDigit c \<Longrightarrow> c \<noteq> CHR ''+'' \<and> c \<noteq> CHR ''-'' \<and> c \<noteq> CHR ''.''"
  by (auto simp: isDigit_def)

lemma takeSign_digits: "digitText ds \<Longrightarrow> ds \<noteq> [] \<Longrightarrow> takeSign (ds @ r) = ([], ds @ r)"
  by (cases ds) (auto simp: takeSign_def digitText_def dest: digit_not_sign)

lemma takeSign_minus: "takeSign (CHR ''-'' # s) = (''-'', s)"
  by (simp add: takeSign_def)

lemma scanMantissa_int:
  assumes "digitText ip" and "ip \<noteq> []"
    and "case r of [] \<Rightarrow> True | c # _ \<Rightarrow> \<not> isDigit c \<and> c \<noteq> CHR ''.''"
  shows "scanMantissa (ip @ r) = Some (ip, r)"
proof -
  from assms(3) have "case r of [] \<Rightarrow> True | c # _ \<Rightarrow> \<not> isDigit c"
    by (cases r) auto
  note tw = digits_then [OF assms(1) this]
  from assms(2,3) show ?thesis
    unfolding scanMantissa_def Let_def tw by (cases r) auto
qed

lemma scanMantissa_frac:
  assumes "digitText ip" and "digitText fp" and "fp \<noteq> []"
    and "case r of [] \<Rightarrow> True | c # _ \<Rightarrow> \<not> isDigit c"
  shows "scanMantissa (ip @ CHR ''.'' # fp @ r) = Some (ip @ CHR ''.'' # fp, r)"
proof -
  have "case CHR ''.'' # fp @ r of [] \<Rightarrow> True | c # _ \<Rightarrow> \<not> isDigit c"
    by (simp add: isDigit_simps)
  note tw = digits_then [OF assms(1) this] digits_then [OF assms(2,4)]
  from assms(3) show ?thesis
    by (simp add: scanMantissa_def Let_def tw)
qed

lemma scanExponent_none:
  assumes "case r of [] \<Rightarrow> True | c # _ \<Rightarrow> c \<noteq> CHR ''e'' \<and> c \<noteq> CHR ''E''"
  shows "scanExponent r = ([], r)"
  using assms by (cases r) (auto simp: scanExponent_def)

lemma scanExponent_plus:
  assumes "digitText ex" and "ex \<noteq> []" and "case r of [] \<Rightarrow> True | c # _ \<Rightarrow> \<not> isDigit c"
  shows "scanExponent (CHR ''e'' # CHR ''+'' # ex @ r) = (CHR ''e'' # CHR ''+'' # ex, r)"
proof -
  note tw = digits_then [OF assms(1,3)]
  have s: "takeSign (CHR ''+'' # ex @ r) = (''+'', ex @ r)"
    by (simp add: takeSign_def)
  from assms(2) show ?thesis
    by (simp add: scanExponent_def Let_def s tw)
qed

lemma numberEnd_weaker:
  assumes "numberEnd r"
  shows "case r of [] \<Rightarrow> True | c # _ \<Rightarrow> \<not> isDigit c"
    and "case r of [] \<Rightarrow> True | c # _ \<Rightarrow> \<not> isDigit c \<and> c \<noteq> CHR ''.''"
    and "case r of [] \<Rightarrow> True | c # _ \<Rightarrow> c \<noteq> CHR ''e'' \<and> c \<noteq> CHR ''E''"
  using assms by (cases r; simp add: numberEnd_def)+

text \<open>The mantissa and the exponent of a number text, scanned one after the other.\<close>

lemma scan_mantissa_exponent:
  assumes "digitText ip" and "ip \<noteq> []" and "digitText fp" and "digitText ex" and "numberEnd r"
  shows "scanMantissa (ip @ (if fp = [] then [] else CHR ''.'' # fp)
            @ (if ex = [] then [] else CHR ''e'' # CHR ''+'' # ex) @ r)
         = Some (ip @ (if fp = [] then [] else CHR ''.'' # fp),
                 (if ex = [] then [] else CHR ''e'' # CHR ''+'' # ex) @ r)"
    and "scanExponent ((if ex = [] then [] else CHR ''e'' # CHR ''+'' # ex) @ r)
         = ((if ex = [] then [] else CHR ''e'' # CHR ''+'' # ex), r)"
proof -
  let ?e = "(if ex = [] then [] else CHR ''e'' # CHR ''+'' # ex) @ r"
  have e1: "case ?e of [] \<Rightarrow> True | c # _ \<Rightarrow> \<not> isDigit c \<and> c \<noteq> CHR ''.''"
    using numberEnd_weaker(2) [OF assms(5)] by (simp add: isDigit_simps)
  then have e2: "case ?e of [] \<Rightarrow> True | c # _ \<Rightarrow> \<not> isDigit c"
    by (cases ?e) auto
  show "scanMantissa (ip @ (if fp = [] then [] else CHR ''.'' # fp) @ ?e)
      = Some (ip @ (if fp = [] then [] else CHR ''.'' # fp), ?e)"
  proof (cases "fp = []")
    case True
    then show ?thesis using scanMantissa_int [OF assms(1,2) e1] by simp
  next
    case False
    then show ?thesis using scanMantissa_frac [OF assms(1,3) False e2] by simp
  qed
  show "scanExponent ?e = ((if ex = [] then [] else CHR ''e'' # CHR ''+'' # ex), r)"
  proof (cases "ex = []")
    case True
    then show ?thesis using scanExponent_none [OF numberEnd_weaker(3) [OF assms(5)]] by simp
  next
    case False
    then show ?thesis
      using scanExponent_plus [OF assms(4) False numberEnd_weaker(1) [OF assms(5)]] by simp
  qed
qed

lemma takeSign_numberText:
  assumes "digitText ip" and "ip \<noteq> []"
  shows "takeSign (numberText neg ip fp ex @ r)
         = ((if neg then ''-'' else []),
            ip @ (if fp = [] then [] else CHR ''.'' # fp)
            @ (if ex = [] then [] else CHR ''e'' # CHR ''+'' # ex) @ r)"
proof (cases neg)
  case True
  then show ?thesis by (simp add: numberText_def takeSign_minus)
next
  case False
  then show ?thesis
    using takeSign_digits [OF assms, of "(if fp = [] then [] else CHR ''.'' # fp)
            @ (if ex = [] then [] else CHR ''e'' # CHR ''+'' # ex) @ r"]
    by (simp add: numberText_def)
qed

lemma scanNumber_numberText:
  assumes "digitText ip" and "ip \<noteq> []" and "digitText fp" and "digitText ex" and "numberEnd r"
  shows "scanNumber (numberText neg ip fp ex @ r) = Some (numberText neg ip fp ex, r)"
  using takeSign_numberText [OF assms(1,2), of neg fp ex r] scan_mantissa_exponent [OF assms]
  by (simp add: scanNumber_def numberText_def)

lemma mantissaValue_text:
  assumes "digitText ip" and "digitText fp"
  shows "mantissaValue (ip @ (if fp = [] then [] else CHR ''.'' # fp))
         = real (digitsValue ip) + real (digitsValue fp) / 10 ^ length fp"
proof (cases "fp = []")
  case True
  note tw = digits_only [OF assms(1)]
  from True show ?thesis
    by (simp add: mantissaValue_def Let_def tw digitsValue_Nil)
next
  case False
  have "case CHR ''.'' # fp of [] \<Rightarrow> True | c # _ \<Rightarrow> \<not> isDigit c"
    by (simp add: isDigit_simps)
  note tw = digits_then [OF assms(1) this] digits_only [OF assms(2)]
  from False show ?thesis
    by (simp add: mantissaValue_def Let_def tw)
qed

lemma exponentValue_text:
  "exponentValue (if ex = [] then [] else CHR ''e'' # CHR ''+'' # ex) = int (digitsValue ex)"
  by (simp add: exponentValue_def digitsValue_Nil)

lemma decimalValue_numberText:
  assumes "digitText ip" and "ip \<noteq> []" and "digitText fp" and "digitText ex"
  shows "decimalValue (numberText neg ip fp ex) = numberValue neg ip fp ex"
proof -
  have e: "numberEnd []" by (simp add: numberEnd_def)
  have s: "takeSign (numberText neg ip fp ex)
      = ((if neg then ''-'' else []),
         ip @ (if fp = [] then [] else CHR ''.'' # fp)
         @ (if ex = [] then [] else CHR ''e'' # CHR ''+'' # ex))"
    using takeSign_numberText [OF assms(1,2), of neg fp ex "[]"] by simp
  have m: "scanMantissa (ip @ (if fp = [] then [] else CHR ''.'' # fp)
            @ (if ex = [] then [] else CHR ''e'' # CHR ''+'' # ex))
         = Some (ip @ (if fp = [] then [] else CHR ''.'' # fp),
                 (if ex = [] then [] else CHR ''e'' # CHR ''+'' # ex))"
    and x: "scanExponent (if ex = [] then [] else CHR ''e'' # CHR ''+'' # ex)
         = ((if ex = [] then [] else CHR ''e'' # CHR ''+'' # ex), [])"
    using scan_mantissa_exponent [OF assms e] by simp_all
  show ?thesis
    unfolding decimalValue_def s fst_conv snd_conv m x Let_def option.case prod.case
      mantissaValue_text [OF assms(1,3)] exponentValue_text
    by (simp add: numberValue_def scale10_def)
qed

section \<open>The text of a formatted number\<close>

lemma zeros_takeWhile: "takeWhile (\<lambda>c. c = z) xs = replicate (length (takeWhile (\<lambda>c. c = z) xs)) z"
  by (induction xs) auto

lemma stripZeros_decomp:
  "\<exists>k. ds = stripZeros ds @ replicate k (CHR ''0'')"
proof -
  let ?P = "\<lambda>c. c = CHR ''0''"
  have "rev ds = takeWhile ?P (rev ds) @ dropWhile ?P (rev ds)" by simp
  then have "ds = rev (dropWhile ?P (rev ds)) @ rev (takeWhile ?P (rev ds))"
    by (metis rev_append rev_rev_ident)
  moreover have "rev (takeWhile ?P (rev ds)) = replicate (length (takeWhile ?P (rev ds))) (CHR ''0'')"
    using zeros_takeWhile [of "CHR ''0''" "rev ds"] by (metis rev_replicate)
  ultimately show ?thesis unfolding stripZeros_def by metis
qed

lemma stripZeros_digits: "digitText ds \<Longrightarrow> digitText (stripZeros ds)"
  unfolding digitText_def stripZeros_def using set_dropWhileD by fastforce

lemma stripZeros_length: "length (stripZeros ds) \<le> length ds"
  by (simp add: stripZeros_def length_dropWhile_le [of _ "rev ds", simplified])

lemma digitsValue_with_zeros:
  "digitsValue (ds @ replicate k (CHR ''0'')) = digitsValue ds * 10 ^ k"
  by (simp add: digitsValue_append digitsValue_zeros)

lemma stripZeros_fraction:
  "real (digitsValue (stripZeros ds)) / 10 ^ length (stripZeros ds)
   = real (digitsValue ds) / 10 ^ length ds"
proof -
  obtain k where k: "ds = stripZeros ds @ replicate k (CHR ''0'')"
    using stripZeros_decomp by blast
  let ?s = "stripZeros ds"
  have "digitsValue ds = digitsValue ?s * 10 ^ k"
    using digitsValue_with_zeros [of ?s k] k by simp
  moreover have "length ds = length ?s + k"
    using arg_cong [OF k, of length] by simp
  ultimately show ?thesis by (simp add: power_add)
qed

lemma stripZeros_Nil_iff: "stripZeros ds = [] \<longleftrightarrow> (\<forall>c\<in>set ds. c = CHR ''0'')"
  by (auto simp: stripZeros_def dropWhile_eq_Nil_conv)

lemma digitsValue_all_zero:
  "\<forall>c\<in>set ds. c = CHR ''0'' \<Longrightarrow> digitsValue ds = 0"
proof -
  assume "\<forall>c\<in>set ds. c = CHR ''0''"
  then have "ds = replicate (length ds) (CHR ''0'')"
    by (simp add: replicate_length_same)
  then show ?thesis using digitsValue_zeros [of "length ds"] by simp
qed

lemma stripZeros_nonempty:
  assumes "digitsValue ds \<noteq> 0"
  shows "stripZeros ds \<noteq> []"
proof
  assume "stripZeros ds = []"
  then have "\<forall>c\<in>set ds. c = CHR ''0''" by (simp add: stripZeros_Nil_iff)
  from digitsValue_all_zero [OF this] assms show False by simp
qed

text \<open>The fraction digits of \<open>plainText\<close>: six digits, the zeros at the end taken off.\<close>

definition fractionDigits6 :: "nat \<Rightarrow> string" where
  "fractionDigits6 fr = stripZeros (padLeft 6 (natDigits fr))"

lemma padLeft_digits: "digitText ds \<Longrightarrow> digitText (padLeft k ds)"
  by (auto simp: digitText_def padLeft_def isDigit_simps)

lemma natDigits_digitText: "digitText (natDigits n)"
  by (simp add: digitText_def natDigits_digits)

lemma padLeft_value: "digitsValue (padLeft k ds) = digitsValue ds"
  by (simp add: padLeft_def digitsValue_append digitsValue_zeros)

lemma padLeft_length: "length (padLeft k ds) = max k (length ds)"
  by (simp add: padLeft_def)

lemma fractionDigits6_facts:
  assumes "fr < 10 ^ 6"
  shows "digitText (fractionDigits6 fr)"
    and "length (fractionDigits6 fr) \<le> 6"
    and "real (digitsValue (fractionDigits6 fr)) / 10 ^ length (fractionDigits6 fr)
         = real fr / 10 ^ 6"
    and "fractionDigits6 fr = [] \<longleftrightarrow> fr = 0"
proof -
  let ?p = "padLeft 6 (natDigits fr)"
  have len: "length ?p = 6"
    using length_natDigits_le [OF assms] by (simp add: padLeft_length)
  have val: "digitsValue ?p = fr" by (simp add: padLeft_value digitsValue_natDigits)
  show "digitText (fractionDigits6 fr)"
    unfolding fractionDigits6_def by (intro stripZeros_digits padLeft_digits natDigits_digitText)
  show "length (fractionDigits6 fr) \<le> 6"
    unfolding fractionDigits6_def using stripZeros_length [of ?p] len by simp
  show "real (digitsValue (fractionDigits6 fr)) / 10 ^ length (fractionDigits6 fr)
         = real fr / 10 ^ 6"
    unfolding fractionDigits6_def using stripZeros_fraction [of ?p] len val by simp
  show "fractionDigits6 fr = [] \<longleftrightarrow> fr = 0"
  proof
    assume "fractionDigits6 fr = []"
    then have "\<forall>c\<in>set ?p. c = CHR ''0''"
      by (simp add: fractionDigits6_def stripZeros_Nil_iff)
    from digitsValue_all_zero [OF this] val show "fr = 0" by simp
  next
    assume "fr = 0"
    then show "fractionDigits6 fr = []"
      by (simp add: fractionDigits6_def padLeft_def natDigits_small digitChar_simps stripZeros_def)
  qed
qed

lemma fractionText_eq:
  assumes "fr < 10 ^ 6"
  shows "fractionText fr
         = (if fractionDigits6 fr = [] then [] else CHR ''.'' # fractionDigits6 fr)"
  using fractionDigits6_facts(4) [OF assms] by (simp add: fractionText_def fractionDigits6_def)

text \<open>A multiple \<open>n / 10^6\<close> of \<open>10^-6\<close>: its integer part and its fraction, in millionths.\<close>

lemma real_div_mod: "real n = real (n div k) * real k + real (n mod k)"
proof -
  have "real n = real (n div k * k + n mod k)" by (simp only: div_mult_mod_eq)
  then show ?thesis by (simp only: of_nat_add of_nat_mult)
qed

lemma millionths_floor:
  "nat \<lfloor>real n / 10 ^ 6\<rfloor> = n div 10 ^ 6"
  "nat \<lfloor>(real n / 10 ^ 6 - real (n div 10 ^ 6)) * 10 ^ 6\<rfloor> = n mod 10 ^ 6"
proof -
  have "\<lfloor>real n / real (10 ^ 6)\<rfloor> = int (n div 10 ^ 6)"
    by (rule floor_divide_of_nat_eq)
  then show "nat \<lfloor>real n / 10 ^ 6\<rfloor> = n div 10 ^ 6" by simp
  note real_div_mod [of n "10 ^ 6"]
  then have "(real n / 10 ^ 6 - real (n div 10 ^ 6)) * 10 ^ 6 = real (n mod 10 ^ 6)"
    by (simp add: field_simps)
  then show "nat \<lfloor>(real n / 10 ^ 6 - real (n div 10 ^ 6)) * 10 ^ 6\<rfloor> = n mod 10 ^ 6"
    by simp
qed

lemma plainText_millionths:
  "plainText (real n / 10 ^ 6)
   = numberText False (natDigits (n div 10 ^ 6)) (fractionDigits6 (n mod 10 ^ 6)) []"
  unfolding plainText_def Let_def millionths_floor
  by (simp add: numberText_def fractionText_eq)

lemma plainText_value:
  "numberValue False (natDigits (n div 10 ^ 6)) (fractionDigits6 (n mod 10 ^ 6)) []
   = real n / 10 ^ 6"
proof -
  note real_div_mod [of n "10 ^ 6"]
  then have "real n / 10 ^ 6 = real (n div 10 ^ 6) + real (n mod 10 ^ 6) / 10 ^ 6"
    by (simp add: field_simps)
  then show ?thesis
    using fractionDigits6_facts(3) [of "n mod 10 ^ 6"]
    by (simp add: numberValue_def digitsValue_natDigits digitsValue_Nil)
qed

subsection \<open>The exponent form\<close>

lemma digitChar_nonzero: "0 < d \<Longrightarrow> d < 10 \<Longrightarrow> digitChar d \<noteq> CHR ''0''"
  by (erule digit_cases) (simp_all add: digitChar_simps)

lemma hd_natDigits: "0 < n \<Longrightarrow> hd (natDigits n) \<noteq> CHR ''0''"
proof (induction n rule: natDigits.induct)
  case (1 n)
  show ?case
  proof (cases "n < 10")
    case True
    with "1.prems" show ?thesis by (simp add: natDigits_small digitChar_nonzero)
  next
    case False
    then have "0 < n div 10" by simp
    with "1.IH" False have "hd (natDigits (n div 10)) \<noteq> CHR ''0''" by simp
    with False show ?thesis by (simp add: natDigits_large natDigits_nonempty)
  qed
qed

lemma exponentText_eq:
  assumes "0 < n"
  obtains d r where "exponentText n = numberText False [d] r (natDigits (length (natDigits n) - 1))"
    and "digitText [d]" and "digitText r"
    and "numberValue False [d] r (natDigits (length (natDigits n) - 1)) = real n"
proof -
  let ?ds = "natDigits n"
  obtain k where k: "?ds = stripZeros ?ds @ replicate k (CHR ''0'')"
    using stripZeros_decomp by blast
  have "digitsValue ?ds \<noteq> 0" using assms by (simp add: digitsValue_natDigits)
  then have "stripZeros ?ds \<noteq> []" by (rule stripZeros_nonempty)
  then obtain d r where dr: "stripZeros ?ds = d # r" by (cases "stripZeros ?ds") auto
  have dt: "digitText (d # r)"
    using stripZeros_digits [OF natDigits_digitText, of n] dr by simp
  then have d1: "digitText [d]" and d2: "digitText r" by (simp_all add: digitText_def)
  have shape: "exponentText n = numberText False [d] r (natDigits (length ?ds - 1))"
    by (simp add: exponentText_def Let_def dr numberText_def natDigits_nonempty)
  have len: "length ?ds = Suc (length r + k)"
    using arg_cong [OF k, of length] dr by simp
  have "digitsValue ?ds = digitsValue (d # r) * 10 ^ k"
    using digitsValue_with_zeros [of "d # r" k] k dr by simp
  moreover have "digitsValue (d # r) = digitsValue [d] * 10 ^ length r + digitsValue r"
    using digitsValue_append [of "[d]" r] by simp
  ultimately have "real n = (real (digitsValue [d]) * 10 ^ length r + real (digitsValue r)) * 10 ^ k"
    by (simp add: digitsValue_natDigits)
  also have "\<dots> = (real (digitsValue [d]) + real (digitsValue r) / 10 ^ length r)
      * 10 ^ (length r + k)"
    by (simp add: power_add field_simps)
  finally have "numberValue False [d] r (natDigits (length ?ds - 1)) = real n"
    by (simp add: numberValue_def digitsValue_natDigits len)
  with shape d1 d2 show ?thesis using that by blast
qed

subsection \<open>\<open>toFixed6\<close> below \<open>10^21\<close>\<close>

definition millionths :: "real \<Rightarrow> nat" where
  "millionths v = nat \<lfloor>\<bar>v\<bar> * 10 ^ 6 + 1 / 2\<rfloor>"

lemma toFixed6_eq:
  assumes "\<bar>v\<bar> < 10 ^ 21"
  obtains ip fp where "toFixed6 v = numberText (v < 0) ip fp []"
    and "digitText ip" and "ip \<noteq> []" and "digitText fp"
    and "numberValue (v < 0) ip fp [] = (if v < 0 then - 1 else 1) * (real (millionths v) / 10 ^ 6)"
proof -
  define m where "m = padLeft 7 (natDigits (millionths v))"
  define ip where "ip = take (length m - 6) m"
  define fp where "fp = drop (length m - 6) m"
  have len: "7 \<le> length m" by (simp add: m_def padLeft_length)
  have m: "digitText m" unfolding m_def by (intro padLeft_digits natDigits_digitText)
  have ip: "digitText ip" and fp: "digitText fp"
    using m by (auto simp: digitText_def ip_def fp_def dest: in_set_takeD in_set_dropD)
  have lfp: "length fp = 6" using len by (simp add: fp_def)
  then have fpne: "fp \<noteq> []" by auto
  have ipne: "ip \<noteq> []" using len by (auto simp: ip_def)
  have "toFixed6 v = (if v < 0 then ''-'' else []) @ ip @ ''.'' @ fp"
    using assms unfolding toFixed6_def Let_def ip_def fp_def m_def millionths_def by simp
  then have shape: "toFixed6 v = numberText (v < 0) ip fp []"
    using fpne by (simp add: numberText_def)
  have "ip @ fp = m" by (simp add: ip_def fp_def)
  then have "digitsValue m = digitsValue ip * 10 ^ 6 + digitsValue fp"
    using digitsValue_append [of ip fp] lfp by simp
  moreover have "digitsValue m = millionths v"
    by (simp add: m_def padLeft_value digitsValue_natDigits)
  ultimately have "real (millionths v) = real (digitsValue ip * 10 ^ 6 + digitsValue fp)" by simp
  then have "real (millionths v) = real (digitsValue ip) * 10 ^ 6 + real (digitsValue fp)"
    by (simp only: of_nat_add of_nat_mult of_nat_power of_nat_numeral)
  then have "real (digitsValue ip) + real (digitsValue fp) / 10 ^ 6 = real (millionths v) / 10 ^ 6"
    by (simp add: field_simps)
  then have "numberValue (v < 0) ip fp []
      = (if v < 0 then - 1 else 1) * (real (millionths v) / 10 ^ 6)"
    by (simp add: numberValue_def digitsValue_Nil lfp)
  with shape ip ipne fp show ?thesis using that by blast
qed

subsection \<open>\<open>Number_of\<close> on a number text\<close>

lemma Number_of_numberText:
  assumes "digitText ip" and "ip \<noteq> []" and "digitText fp" and "digitText ex"
  shows "Number_of (numberText neg ip fp ex)
         = (if numberValue neg ip fp ex = 0 \<and> neg then NegZero
            else Num (numberValue neg ip fp ex))"
proof -
  have "numberEnd []" by (simp add: numberEnd_def)
  from scanNumber_numberText [OF assms this, of neg]
  have s: "scanNumber (numberText neg ip fp ex) = Some (numberText neg ip fp ex, [])" by simp
  have t: "fst (takeSign (numberText neg ip fp ex)) = (if neg then ''-'' else [])"
    using takeSign_numberText [OF assms(1,2), of neg fp ex "[]"] by simp
  show ?thesis
    by (simp add: Number_of_def s t decimalValue_numberText [OF assms])
qed

subsection \<open>\<open>formatNumber\<close> prints the rounded value\<close>

text \<open>
  The value that \<open>formatNumber\<close> prints: below \<open>10^21\<close> the nearest multiple of \<open>10^-6\<close>,
  a tie going away from zero; from \<open>10^21\<close> on the integer part.
\<close>

definition rounded6 :: "real \<Rightarrow> real" where
  "rounded6 v =
     (if 10 ^ 21 \<le> \<bar>v\<bar> then sgn v * of_int \<lfloor>\<bar>v\<bar>\<rfloor>
      else sgn v * (real (millionths v) / 10 ^ 6))"

definition canonical :: "real \<Rightarrow> bool" where
  "canonical r \<longleftrightarrow>
     (\<exists>n. \<bar>r\<bar> = real n / 10 ^ 6 \<and> \<bar>r\<bar> < 10 ^ 21) \<or> (\<exists>n. \<bar>r\<bar> = real n \<and> 10 ^ 21 \<le> \<bar>r\<bar>)"

lemma millionths_bound:
  assumes "\<bar>v\<bar> < 10 ^ 21"
  shows "real (millionths v) / 10 ^ 6 \<le> 10 ^ 21"
proof -
  define z where "z = \<lfloor>\<bar>v\<bar> * 10 ^ 6 + 1 / 2\<rfloor>"
  have "real_of_int z \<le> \<bar>v\<bar> * 10 ^ 6 + 1 / 2" unfolding z_def by (rule of_int_floor_le)
  also have "\<dots> < 10 ^ 27 + 1" using assms by simp
  finally have "real_of_int z < real_of_int (10 ^ 27 + 1)" by simp
  then have "z < 10 ^ 27 + 1" by (simp only: of_int_less_iff)
  then have "nat z \<le> 10 ^ 27" by simp
  then have "millionths v \<le> 10 ^ 27" by (simp add: millionths_def z_def)
  then have "real (millionths v) \<le> 10 ^ 27"
    by (metis of_nat_le_iff of_nat_numeral of_nat_power)
  then show ?thesis by simp
qed

lemma floor_large:
  assumes "10 ^ 21 \<le> \<bar>v :: real\<bar>"
  shows "(10::real) ^ 21 \<le> of_int \<lfloor>\<bar>v\<bar>\<rfloor>"
proof -
  have "of_int (10 ^ 21) \<le> \<bar>v\<bar>" using assms by simp
  then have "(10 ^ 21 :: int) \<le> \<lfloor>\<bar>v\<bar>\<rfloor>" by (simp only: le_floor_iff)
  then have "real_of_int (10 ^ 21) \<le> real_of_int \<lfloor>\<bar>v\<bar>\<rfloor>" by (simp only: of_int_le_iff)
  then show ?thesis by simp
qed

lemma rounded6_large:
  assumes "10 ^ 21 \<le> \<bar>v\<bar>"
  shows "\<bar>rounded6 v\<bar> = real (nat \<lfloor>\<bar>v\<bar>\<rfloor>)" and "10 ^ 21 \<le> \<bar>rounded6 v\<bar>"
    and "rounded6 v < 0 \<longleftrightarrow> v < 0"
proof -
  note f = floor_large [OF assms]
  from assms have v: "v \<noteq> 0" by auto
  have r: "rounded6 v = sgn v * of_int \<lfloor>\<bar>v\<bar>\<rfloor>" using assms by (simp add: rounded6_def)
  have a: "\<bar>rounded6 v\<bar> = of_int \<lfloor>\<bar>v\<bar>\<rfloor>"
    using f v by (simp add: r abs_mult sgn_if)
  from f have "0 \<le> \<lfloor>\<bar>v\<bar>\<rfloor>" by linarith
  then show "\<bar>rounded6 v\<bar> = real (nat \<lfloor>\<bar>v\<bar>\<rfloor>)" using a by simp
  show "10 ^ 21 \<le> \<bar>rounded6 v\<bar>" using a f by simp
  show "rounded6 v < 0 \<longleftrightarrow> v < 0" using f v by (auto simp: r sgn_if)
qed

lemma rounded6_small:
  assumes "\<not> 10 ^ 21 \<le> \<bar>v\<bar>"
  shows "\<bar>rounded6 v\<bar> = real (if v = 0 then 0 else millionths v) / 10 ^ 6"
    and "\<bar>rounded6 v\<bar> \<le> 10 ^ 21"
proof -
  from assms have b: "real (millionths v) / 10 ^ 6 \<le> 10 ^ 21" using millionths_bound by simp
  show r: "\<bar>rounded6 v\<bar> = real (if v = 0 then 0 else millionths v) / 10 ^ 6"
    using assms by (simp add: rounded6_def abs_mult sgn_if)
  show "\<bar>rounded6 v\<bar> \<le> 10 ^ 21" using b unfolding r by simp
qed

lemma rounded6_canonical: "canonical (rounded6 v)"
proof (cases "10 ^ 21 \<le> \<bar>v\<bar>")
  case True
  from rounded6_large(1,2) [OF True] show ?thesis unfolding canonical_def by blast
next
  case False
  note s = rounded6_small [OF False]
  show ?thesis
  proof (cases "\<bar>rounded6 v\<bar> < 10 ^ 21")
    case True
    with s(1) show ?thesis unfolding canonical_def by blast
  next
    case False
    with s(2) have "\<bar>rounded6 v\<bar> = real (10 ^ 21)" by simp
    moreover from this have "10 ^ 21 \<le> \<bar>rounded6 v\<bar>" by simp
    ultimately show ?thesis unfolding canonical_def by blast
  qed
qed

lemma toString_text:
  assumes "canonical r"
  obtains ip fp ex where "toString (Num r) = numberText (r < 0) ip fp ex"
    and "digitText ip" and "ip \<noteq> []" and "digitText fp" and "digitText ex"
    and "numberValue (r < 0) ip fp ex = r"
    and "\<bar>r\<bar> < 10 ^ 21 \<Longrightarrow> ex = [] \<and> length fp \<le> 6"
proof (cases "r = 0")
  case True
  have "toString (Num r) = numberText (r < 0) ''0'' [] []"
    using True by (simp add: toString_def numberText_def)
  moreover have "numberValue (r < 0) ''0'' [] [] = r"
    using True by (simp add: numberValue_def digitsValue_def digitValue_simps)
  moreover have "digitText ''0''" "digitText []" by (simp_all add: digitText_def isDigit_simps)
  ultimately show ?thesis using that [of "''0''" "[]" "[]"] by simp
next
  case nz: False
  have sign: "(if r < 0 then - 1 else 1) * \<bar>r\<bar> = r" by simp
  show ?thesis
  proof (cases "10 ^ 21 \<le> \<bar>r\<bar>")
    case True
    with assms obtain n where n: "\<bar>r\<bar> = real n" by (auto simp: canonical_def)
    with nz have pos: "0 < n" by (cases n) auto
    from n have fl: "nat \<lfloor>\<bar>r\<bar>\<rfloor> = n" by simp
    obtain d q where e: "exponentText n = numberText False [d] q (natDigits (length (natDigits n) - 1))"
      and d: "digitText [d]" "digitText q"
      and v: "numberValue False [d] q (natDigits (length (natDigits n) - 1)) = real n"
      using exponentText_eq [OF pos] by blast
    let ?ex = "natDigits (length (natDigits n) - 1)"
    have "toString (Num r) = numberText (r < 0) [d] q ?ex"
      using nz True e by (simp add: toString_def fl numberText_def)
    moreover have "numberValue (r < 0) [d] q ?ex = r"
      using v n sign by (simp add: numberValue_def)
    ultimately show ?thesis
      using that [of "[d]" q ?ex] d True natDigits_digitText by simp
  next
    case False
    with assms obtain n where n: "\<bar>r\<bar> = real n / 10 ^ 6" by (auto simp: canonical_def)
    let ?ip = "natDigits (n div 10 ^ 6)" and ?fp = "fractionDigits6 (n mod 10 ^ 6)"
    have lt: "n mod 10 ^ 6 < 10 ^ 6" by simp
    have pt: "plainText \<bar>r\<bar> = numberText False ?ip ?fp []"
      unfolding n by (rule plainText_millionths)
    have pv: "numberValue False ?ip ?fp [] = \<bar>r\<bar>"
      unfolding n by (rule plainText_value)
    have "toString (Num r) = numberText (r < 0) ?ip ?fp []"
      using nz False by (simp add: toString_def pt numberText_def)
    moreover have "numberValue (r < 0) ?ip ?fp [] = r"
      using pv sign by (simp add: numberValue_def)
    ultimately show ?thesis
      using that [of ?ip ?fp "[]"] fractionDigits6_facts(1,2) [OF lt] natDigits_digitText
        natDigits_nonempty
      by (simp add: digitText_def)
  qed
qed

lemma toString_large:
  assumes "10 ^ 21 \<le> \<bar>v\<bar>"
  shows "toString (Num v) = toString (Num (rounded6 v))"
proof -
  note r = rounded6_large [OF assms]
  from assms have v: "v \<noteq> 0" by auto
  from r(2) have nz: "rounded6 v \<noteq> 0" by auto
  have "nat \<lfloor>\<bar>rounded6 v\<bar>\<rfloor> = nat \<lfloor>\<bar>v\<bar>\<rfloor>" unfolding r(1) by simp
  then show ?thesis
    using assms v nz r(2,3) by (simp add: toString_def)
qed

lemma formatNumber_eq: "formatNumber v = toString (Num (rounded6 v))"
proof (cases "10 ^ 21 \<le> \<bar>v\<bar>")
  case True
  let ?r = "rounded6 v"
  have t: "toFixed6 v = toString (Num ?r)"
    using True toString_large by (simp add: toFixed6_def)
  obtain ip fp ex where e: "toString (Num ?r) = numberText (?r < 0) ip fp ex"
    and d: "digitText ip" "ip \<noteq> []" "digitText fp" "digitText ex"
    and v: "numberValue (?r < 0) ip fp ex = ?r"
    using toString_text [OF rounded6_canonical, of v] by blast
  have "?r \<noteq> 0" using rounded6_large(2) [OF True] by auto
  then have "Number_of (toFixed6 v) = Num ?r"
    unfolding t e using Number_of_numberText [OF d, of "?r < 0"] v by simp
  then show ?thesis by (simp add: formatNumber_def)
next
  case False
  then have lt: "\<bar>v\<bar> < 10 ^ 21" by simp
  obtain ip fp where e: "toFixed6 v = numberText (v < 0) ip fp []"
    and d: "digitText ip" "ip \<noteq> []" "digitText fp"
    and v: "numberValue (v < 0) ip fp [] = (if v < 0 then - 1 else 1) * (real (millionths v) / 10 ^ 6)"
    using toFixed6_eq [OF lt] by blast
  have "millionths 0 = 0" by (simp add: millionths_def)
  then have r: "numberValue (v < 0) ip fp [] = rounded6 v"
    using False v by (auto simp: rounded6_def sgn_if)
  have "digitText []" by (simp add: digitText_def)
  from Number_of_numberText [OF d this, of "v < 0"]
  have "Number_of (toFixed6 v) = (if rounded6 v = 0 \<and> v < 0 then NegZero else Num (rounded6 v))"
    unfolding e r .
  then show ?thesis by (auto simp: formatNumber_def)
qed

text \<open>What the parser needs to know of the text of a formatted number.\<close>

lemma formatNumber_text:
  obtains ip fp ex where "formatNumber v = numberText (rounded6 v < 0) ip fp ex"
    and "digitText ip" and "ip \<noteq> []" and "digitText fp" and "digitText ex"
    and "numberValue (rounded6 v < 0) ip fp ex = rounded6 v"
    and "\<bar>rounded6 v\<bar> < 10 ^ 21 \<Longrightarrow> ex = [] \<and> length fp \<le> 6"
  using toString_text [OF rounded6_canonical, of v] unfolding formatNumber_eq by blast

lemma scanNumber_formatNumber:
  "numberEnd r \<Longrightarrow> scanNumber (formatNumber v @ r) = Some (formatNumber v, r)"
  by (rule formatNumber_text [of v]) (simp add: scanNumber_numberText)

lemma decimalValue_formatNumber: "decimalValue (formatNumber v) = rounded6 v"
  by (rule formatNumber_text [of v]) (simp add: decimalValue_numberText)

lemma formatNumber_first:
  "formatNumber v \<noteq> [] \<and> (isDigit (hd (formatNumber v)) \<or> hd (formatNumber v) = CHR ''-'')"
proof (rule formatNumber_text [of v])
  fix ip fp ex
  assume "formatNumber v = numberText (rounded6 v < 0) ip fp ex" "digitText ip" "ip \<noteq> []"
  then show ?thesis by (cases ip) (auto simp: numberText_def digitText_def)
qed

lemma formatNumber_chars:
  "c \<in> set (formatNumber v) \<Longrightarrow> isDigit c \<or> c = CHR ''-'' \<or> c = CHR ''.'' \<or> c = CHR ''e'' \<or> c = CHR ''+''"
  by (rule formatNumber_text [of v]) (auto simp: numberText_def digitText_def split: if_splits)

lemma parseFloat_formatNumber: "parseFloat (formatNumber v) = Some (rounded6 v)"
proof -
  have "\<not> isSpace (hd (formatNumber v))"
    using formatNumber_first [of v] by (auto simp: isSpace_def isDigit_def)
  then have "dropWhile isSpace (formatNumber v) = formatNumber v"
    using formatNumber_first [of v] by (cases "formatNumber v") auto
  moreover have "numberEnd []" by (simp add: numberEnd_def)
  ultimately show ?thesis
    using scanNumber_formatNumber [of "[]" v]
    by (simp add: parseFloat_def decimalValue_formatNumber)
qed

section \<open>Parsing a serialized path\<close>

definition roundPoint :: "Point \<Rightarrow> Point" where
  "roundPoint p = \<lparr>px = rounded6 (px p), py = rounded6 (py p)\<rparr>"

definition roundSubpath :: "Subpath \<Rightarrow> Subpath" where
  "roundSubpath sp = \<lparr>points = map roundPoint (points sp), closed_flag = closed_flag sp\<rparr>"

lemma matchNumbers_match:
  assumes "scanNumber s = Some (tok, rest)"
  shows "matchNumbers s = tok # matchNumbers rest"
proof (cases s)
  case Nil
  with assms show ?thesis
    by (simp add: scanNumber_def takeSign_def scanMantissa_def)
next
  case (Cons c cs)
  with assms show ?thesis by simp
qed

lemma scanNumber_space: "scanNumber (CHR '' '' # s) = None"
  by (simp add: scanNumber_def takeSign_def scanMantissa_def isDigit_simps)

lemma matchNumbers_space: "matchNumbers (CHR '' '' # s) = matchNumbers s"
  by (simp add: scanNumber_space)

lemma numberEnd_space: "numberEnd (CHR '' '' # s)" "numberEnd []"
  by (simp_all add: numberEnd_def isDigit_simps)

lemma matchNumbers_pair:
  assumes "sep = [] \<or> sep = '' ''"
  shows "matchNumbers (formatNumber a @ '' '' @ formatNumber b @ sep) = [formatNumber a, formatNumber b]"
proof -
  have 1: "matchNumbers (formatNumber a @ '' '' @ formatNumber b @ sep)
      = formatNumber a # matchNumbers ('' '' @ formatNumber b @ sep)"
    by (rule matchNumbers_match) (simp add: scanNumber_formatNumber numberEnd_space)
  have "numberEnd sep" using assms by (auto simp: numberEnd_space)
  then have 2: "matchNumbers (formatNumber b @ sep) = formatNumber b # matchNumbers sep"
    by (intro matchNumbers_match scanNumber_formatNumber)
  have 3: "matchNumbers sep = []" using assms by (auto simp: scanNumber_space)
  have 4: "matchNumbers ('' '' @ formatNumber b @ sep) = matchNumbers (formatNumber b @ sep)"
    using matchNumbers_space [of "formatNumber b @ sep"] by simp
  show ?thesis unfolding 1 4 2 3 ..
qed

lemma commandCase:
  "toUpperCase CHR ''M'' = CHR ''M''" "toUpperCase CHR ''m'' = CHR ''M''"
  "toUpperCase CHR ''L'' = CHR ''L''" "toUpperCase CHR ''l'' = CHR ''L''"
  "toUpperCase CHR ''Z'' = CHR ''Z''" "toUpperCase CHR ''z'' = CHR ''Z''"
  "toLowerCase CHR ''M'' = CHR ''m''" "toLowerCase CHR ''m'' = CHR ''m''"
  "toLowerCase CHR ''L'' = CHR ''l''" "toLowerCase CHR ''l'' = CHR ''l''"
  "toLowerCase CHR ''Z'' = CHR ''z''" "toLowerCase CHR ''z'' = CHR ''z''"
  by (simp_all add: toUpperCase_def toLowerCase_def char_of_eq_iff)

text \<open>What \<open>applyCommand\<close> does with one part of a serialized path.\<close>

lemma applyCommand_M:
  assumes "sep = [] \<or> sep = '' ''"
  shows "applyCommand (CHR ''M'') (formatNumber (px p) @ '' '' @ formatNumber (py p) @ sep) st
         = startSubpath (roundPoint p) st"
  unfolding applyCommand_def matchNumbers_pair [OF assms]
  by (simp add: commandCase parseFloat_formatNumber resolvePoint_def roundPoint_def
      split: option.splits)

lemma applyCommand_L:
  assumes "sep = [] \<or> sep = '' ''"
  shows "applyCommand (CHR ''L'') (formatNumber (px p) @ '' '' @ formatNumber (py p) @ sep) st
         = appendPoint (roundPoint p) st"
  unfolding applyCommand_def matchNumbers_pair [OF assms]
  by (simp add: commandCase parseFloat_formatNumber resolvePoint_def roundPoint_def
      split: option.splits)

lemma applyCommand_Z:
  "applyCommand (CHR ''Z'') data st
   = st\<lparr>current := map_option (\<lambda>c. c\<lparr>closed_flag := True\<rparr>) (current st),
        currentPoint := (case subpathStart st of None \<Rightarrow> currentPoint st | Some p \<Rightarrow> Some p)\<rparr>"
  by (simp add: applyCommand_def commandCase)

lemma runCommands_simps:
  "runCommands st [] = st"
  "runCommands st ((c, d) # cmds) = runCommands (applyCommand c d st) cmds"
  "runCommands st (xs @ ys) = runCommands (runCommands st xs) ys"
  by (simp_all add: runCommands_def)

lemma splitCommands_skip:
  "\<forall>c\<in>set xs. \<not> isCommandChar c \<Longrightarrow> splitCommands (xs @ ys) = splitCommands ys"
  by (induction xs) simp_all

lemma splitCommands_part:
  assumes "isCommandChar c" and "\<forall>d\<in>set b. \<not> isCommandChar d"
    and "ys = [] \<or> isCommandChar (hd ys)"
  shows "splitCommands (c # b @ ys) = (c, b) # splitCommands ys"
proof -
  from assms(3) have "takeWhile (\<lambda>d. \<not> isCommandChar d) ys = []"
    by (cases ys) auto
  with assms(2) have "takeWhile (\<lambda>d. \<not> isCommandChar d) (b @ ys) = b"
    by (simp add: takeWhile_append2)
  with assms(1) splitCommands_skip [OF assms(2)] show ?thesis by simp
qed

text \<open>
  A part of a serialized path: a command letter and data without command letters, for
  which a space after the data changes nothing.
\<close>

definition partOK :: "string \<Rightarrow> bool" where
  "partOK p \<longleftrightarrow>
     (case p of
        [] \<Rightarrow> False
      | c # b \<Rightarrow> isCommandChar c \<and> (\<forall>d\<in>set b. \<not> isCommandChar d)
                 \<and> (\<forall>st. applyCommand c (b @ '' '') st = applyCommand c b st))"

lemma join_hd: "p \<noteq> [] \<Longrightarrow> join sep (p # ps) \<noteq> [] \<and> hd (join sep (p # ps)) = hd p"
  by (cases ps) auto

lemma run_join:
  "\<forall>p\<in>set parts. partOK p
   \<Longrightarrow> runCommands st (splitCommands (join '' '' parts))
       = runCommands st (map (\<lambda>p. (hd p, tl p)) parts)"
proof (induction "'' ''" parts arbitrary: st rule: join.induct)
  case 1
  then show ?case by simp
next
  case (2 p)
  then obtain c b where p: "p = c # b" and c: "isCommandChar c"
    and b: "\<forall>d\<in>set b. \<not> isCommandChar d"
    by (cases p) (auto simp: partOK_def)
  have "splitCommands (c # b @ []) = (c, b) # splitCommands []"
    by (rule splitCommands_part [OF c b]) simp
  then show ?case by (simp add: p)
next
  case (3 p q ps)
  from "3.prems" obtain c b where p: "p = c # b" and c: "isCommandChar c"
    and b: "\<forall>d\<in>set b. \<not> isCommandChar d"
    and sp: "\<And>st. applyCommand c (b @ '' '') st = applyCommand c b st"
    by (cases p) (auto simp: partOK_def)
  from "3.prems" have q: "q \<noteq> []" "isCommandChar (hd q)"
    by (cases q; simp add: partOK_def)+
  let ?rest = "join '' '' (q # ps)"
  have hd: "?rest = [] \<or> isCommandChar (hd ?rest)"
    using join_hd [OF q(1), of "'' ''" ps] q(2) by simp
  have b': "\<forall>d\<in>set (b @ '' ''). \<not> isCommandChar d"
    using b by (simp add: isCommandChar_def)
  have "splitCommands (c # (b @ '' '') @ ?rest) = (c, b @ '' '') # splitCommands ?rest"
    by (rule splitCommands_part [OF c b' hd])
  then have "splitCommands (join '' '' (p # q # ps)) = (c, b @ '' '') # splitCommands ?rest"
    by (simp add: p)
  moreover have "runCommands (applyCommand c b st) (splitCommands ?rest)
      = runCommands (applyCommand c b st) (map (\<lambda>p. (hd p, tl p)) (q # ps))"
    using "3.prems" by (intro "3.hyps") simp
  ultimately show ?case by (simp add: runCommands_simps sp p)
qed

lemma formatNumber_no_command: "c \<in> set (formatNumber v) \<Longrightarrow> \<not> isCommandChar c"
  using formatNumber_chars [of c v] by (auto simp: isCommandChar_def isDigit_def)

lemma pointText_ok:
  assumes "c = CHR ''M'' \<or> c = CHR ''L''"
  shows "partOK (pointText c p)"
proof -
  have "\<forall>d\<in>set (formatNumber (px p) @ '' '' @ formatNumber (py p)). \<not> isCommandChar d"
    using formatNumber_no_command by (auto simp: isCommandChar_def)
  moreover have "\<And>st. applyCommand c ((formatNumber (px p) @ '' '' @ formatNumber (py p)) @ '' '') st
      = applyCommand c (formatNumber (px p) @ '' '' @ formatNumber (py p)) st"
    using assms applyCommand_M [of "[]" p] applyCommand_M [of "'' ''" p]
      applyCommand_L [of "[]" p] applyCommand_L [of "'' ''" p]
    by auto
  ultimately show ?thesis using assms by (auto simp: partOK_def pointText_def isCommandChar_def)
qed

lemma Z_ok: "partOK ''Z''"
  by (simp add: partOK_def isCommandChar_def applyCommand_Z)

lemma subpathParts_ok: "p \<in> set (subpathParts sp) \<Longrightarrow> partOK p"
  by (auto simp: subpathParts_def pointText_ok Z_ok split: list.splits if_splits)

text \<open>The commands of one subpath, run from any state.\<close>

lemma appendPoints:
  "current st = Some c
   \<Longrightarrow> subpaths (foldl (\<lambda>s q. appendPoint (roundPoint q) s) st qs) = subpaths st
     \<and> current (foldl (\<lambda>s q. appendPoint (roundPoint q) s) st qs)
       = Some (c\<lparr>points := points c @ map roundPoint qs\<rparr>)"
proof (induction qs arbitrary: st c)
  case Nil
  then show ?case by simp
next
  case (Cons q qs)
  let ?st = "appendPoint (roundPoint q) st"
  from Cons.prems have "current ?st = Some (c\<lparr>points := points c @ [roundPoint q]\<rparr>)"
    and "subpaths ?st = subpaths st"
    by (simp_all add: appendPoint_def)
  from Cons.IH [OF this(1)] this(2) show ?case by simp
qed

lemma run_points:
  "runCommands st (map ((\<lambda>p. (hd p, tl p)) \<circ> pointText (CHR ''L'')) qs)
   = foldl (\<lambda>s q. appendPoint (roundPoint q) s) st qs"
proof (induction qs arbitrary: st)
  case Nil
  then show ?case by (simp add: runCommands_simps)
next
  case (Cons q qs)
  then show ?case
    using applyCommand_L [of "[]" q st] by (simp add: runCommands_simps pointText_def)
qed

lemma run_subpath:
  assumes "points sp \<noteq> []"
  shows "subpaths (flushCurrent (runCommands st (map (\<lambda>p. (hd p, tl p)) (subpathParts sp))))
         = subpaths (flushCurrent st) @ [roundSubpath sp]"
proof -
  from assms obtain first rest where pts: "points sp = first # rest"
    by (cases "points sp") auto
  let ?s1 = "startSubpath (roundPoint first) st"
  let ?s2 = "foldl (\<lambda>s q. appendPoint (roundPoint q) s) ?s1 rest"
  let ?c = "\<lparr>points = [roundPoint first], closed_flag = False\<rparr>"
  have c1: "current ?s1 = Some ?c" and p1: "subpaths ?s1 = subpaths (flushCurrent st)"
    by (simp_all add: startSubpath_def)
  from appendPoints [OF c1, of rest] p1
  have p2: "subpaths ?s2 = subpaths (flushCurrent st)"
    and c2: "current ?s2 = Some \<lparr>points = map roundPoint (first # rest), closed_flag = False\<rparr>"
    by simp_all
  have run: "runCommands st (map (\<lambda>p. (hd p, tl p)) (subpathParts sp))
      = (if closed_flag sp then applyCommand (CHR ''Z'') [] ?s2 else ?s2)"
    using applyCommand_M [of "[]" first st]
    by (simp add: subpathParts_def pts runCommands_simps pointText_def run_points
        del: foldl_Cons)
  show ?thesis
    unfolding run using p2 c2
    by (simp add: applyCommand_Z flushCurrent_def roundSubpath_def pts)
qed

lemma run_subpaths:
  "subpaths (flushCurrent
     (runCommands st (map (\<lambda>p. (hd p, tl p)) (concat (map subpathParts sps)))))
   = subpaths (flushCurrent st) @ map roundSubpath (filter (\<lambda>sp. points sp \<noteq> []) sps)"
proof (induction sps arbitrary: st)
  case Nil
  then show ?case by (simp add: runCommands_simps)
next
  case (Cons sp sps)
  show ?case
  proof (cases "points sp = []")
    case True
    then have "subpathParts sp = []" by (simp add: subpathParts_def)
    with True Cons.IH show ?thesis by simp
  next
    case False
    let ?st = "runCommands st (map (\<lambda>p. (hd p, tl p)) (subpathParts sp))"
    from Cons.IH [of ?st] run_subpath [OF False, of st] False show ?thesis
      by (simp add: runCommands_simps)
  qed
qed

lemma parse_serialize:
  "parsePathData (serializeSubpaths sps)
   = map roundSubpath (filter (\<lambda>sp. points sp \<noteq> []) sps)"
proof -
  have "\<forall>p\<in>set (concat (map subpathParts sps)). partOK p"
    by (auto simp: subpathParts_ok)
  from run_join [OF this, of initialState] run_subpaths [of initialState sps] show ?thesis
    by (simp add: parsePathData_def serializeSubpaths_def flushCurrent_def initialState_def)
qed

section \<open>Evaluating the parser and the serializer\<close>

lemmas scan_eval = scanNumber_def takeSign_def scanMantissa_def scanExponent_def isDigit_def
  decimalValue_def mantissaValue_def digitsValue_def digitValue_def exponentValue_def scale10_def
  parseFloat_def isSpace_def

lemmas parse_eval = parsePathData_def runCommands_def initialState_def isCommandChar_def
  applyCommand_def commandCase flushCurrent_def resolvePoint_def startSubpath_def appendPoint_def

lemmas format_eval = formatNumber_eq rounded6_def millionths_def toString_def plainText_def
  fractionText_def stripZeros_def padLeft_def natDigits_small natDigits_large digitChar_simps
  exponentText_def

lemmas serialize_eval = serializeSubpaths_def subpathParts_def pointText_def

section \<open>Relative commands\<close>

text \<open>
  The coordinate pairs that the loop of \<open>applyCommand\<close> reads from the matched numbers:
  two numbers at a time, a pair with a NaN left out, a last number without a partner
  ignored.
\<close>

fun readPairs :: "string list \<Rightarrow> (real \<times> real) list" where
  "readPairs (a # b # rest) =
     (case (parseFloat a, parseFloat b) of
        (Some vx, Some vy) \<Rightarrow> (vx, vy) # readPairs rest
      | _ \<Rightarrow> readPairs rest)"
| "readPairs numbers = []"

text \<open>
  The points that relative pairs give from a point \<open>p\<close> on, as the specification
  describes them: each pair is added to the point before it.
\<close>

fun accumulate :: "Point \<Rightarrow> (real \<times> real) list \<Rightarrow> Point list" where
  "accumulate p [] = []"
| "accumulate p (d # ds) =
     \<lparr>px = fst d + px p, py = snd d + py p\<rparr> # accumulate \<lparr>px = fst d + px p, py = snd d + py p\<rparr> ds"

lemma pairLoop_relative_append:
  assumes "current st = Some c" and "currentPoint st = Some p"
    and "command = CHR ''L'' \<or> (command = CHR ''M'' \<and> \<not> isFirstPair)"
  shows "pairLoop command True isFirstPair numbers st
         = st\<lparr>current := Some (c\<lparr>points := points c @ accumulate p (readPairs numbers)\<rparr>),
              currentPoint := Some (last (p # accumulate p (readPairs numbers)))\<rparr>"
  using assms
proof (induction numbers arbitrary: st c p isFirstPair rule: induct_list012)
  case 1
  then show ?case by simp
next
  case (2 v)
  then show ?case by simp
next
  case (3 a b rest)
  show ?case
  proof (cases "parseFloat a")
    case None
    with 3 show ?thesis by simp
  next
    case xa: (Some vx)
    show ?thesis
    proof (cases "parseFloat b")
      case None
      with xa 3 show ?thesis by simp
    next
      case xb: (Some vy)
      let ?q = "\<lparr>px = vx + px p, py = vy + py p\<rparr>"
      let ?st = "appendPoint ?q st"
      have c: "current ?st = Some (c\<lparr>points := points c @ [?q]\<rparr>)"
        and p: "currentPoint ?st = Some ?q"
        using "3.prems" by (simp_all add: appendPoint_def)
      have cmd: "command = CHR ''L'' \<or> (command = CHR ''M'' \<and> \<not> False)"
        using "3.prems"(3) by auto
      have step: "pairLoop command True isFirstPair (a # b # rest) st
          = pairLoop command True False rest ?st"
        using xa xb "3.prems" by (auto simp: resolvePoint_def)
      have "pairLoop command True False rest ?st
          = ?st\<lparr>current := Some (c\<lparr>points := points c @ [?q] @ accumulate ?q (readPairs rest)\<rparr>),
                currentPoint := Some (last (?q # accumulate ?q (readPairs rest)))\<rparr>"
        using "3.IH"(1) [OF c p cmd] by simp
      then show ?thesis
        unfolding step using xa xb "3.prems"(1) by (simp add: appendPoint_def)
    qed
  qed
qed


lemma pairLoop_relative_first:
  assumes "command = CHR ''M'' \<or> command = CHR ''L''"
  shows "pairLoop command True True numbers st
         = (case readPairs numbers of
              [] \<Rightarrow> st
            | d # ds \<Rightarrow>
                (let q = resolvePoint True (currentPoint st) (fst d) (snd d);
                     st1 = (if command = CHR ''M'' then startSubpath q st else appendPoint q st)
                 in st1\<lparr>current := map_option (\<lambda>c. c\<lparr>points := points c @ accumulate q ds\<rparr>)
                                   (current st1),
                        currentPoint := Some (last (q # accumulate q ds))\<rparr>))"
proof (induction numbers arbitrary: st rule: induct_list012)
  case 1
  then show ?case by simp
next
  case (2 v)
  then show ?case by simp
next
  case (3 a b rest)
  show ?case
  proof (cases "parseFloat a")
    case None
    with 3 show ?thesis by simp
  next
    case xa: (Some vx)
    show ?thesis
    proof (cases "parseFloat b")
      case None
      with xa 3 show ?thesis by simp
    next
      case xb: (Some vy)
      define q where "q = resolvePoint True (currentPoint st) vx vy"
      define st1 where "st1 = (if command = CHR ''M'' then startSubpath q st else appendPoint q st)"
      have "current st1 \<noteq> None" and p: "currentPoint st1 = Some q"
        by (simp_all add: st1_def startSubpath_def appendPoint_def split: option.splits)
      then obtain c where c: "current st1 = Some c" by auto
      have cmd: "command = CHR ''L'' \<or> (command = CHR ''M'' \<and> \<not> False)"
        using assms by auto
      have step: "pairLoop command True True (a # b # rest) st = pairLoop command True False rest st1"
        using xa xb assms by (auto simp: q_def st1_def)
      show ?thesis
        unfolding step pairLoop_relative_append [OF c p cmd]
        using xa xb c by (simp add: q_def [symmetric] st1_def [symmetric] Let_def)
    qed
  qed
qed

subsection \<open>The states that the parser reaches\<close>

text \<open>
  Either nothing has been resolved yet, or there is a current subpath with at least one
  point, whose first point is the anchor \<^verbatim>\<open>subpathStart\<close>, and a current point.
\<close>

definition anchored :: "ParseState \<Rightarrow> bool" where
  "anchored st \<longleftrightarrow>
     st = initialState
     \<or> (case current st of
          None \<Rightarrow> False
        | Some c \<Rightarrow> points c \<noteq> [] \<and> subpathStart st = Some (hd (points c))
                     \<and> currentPoint st \<noteq> None)"

lemma anchored_startSubpath: "anchored (startSubpath q st)"
  by (simp add: anchored_def startSubpath_def)

lemma anchored_appendPoint: "anchored st \<Longrightarrow> anchored (appendPoint q st)"
  by (auto simp: anchored_def appendPoint_def initialState_def split: option.splits)

lemma anchored_pairLoop:
  "anchored st \<Longrightarrow> anchored (pairLoop command isRelative isFirstPair numbers st)"
proof (induction numbers arbitrary: st isFirstPair rule: induct_list012)
  case 1
  then show ?case by simp
next
  case (2 v)
  then show ?case by simp
next
  case (3 a b rest)
  then show ?case
    by (auto simp: Let_def anchored_startSubpath anchored_appendPoint split: option.splits)
qed

lemma anchored_applyCommand: "anchored st \<Longrightarrow> anchored (applyCommand cmd data st)"
  by (auto simp: applyCommand_def Let_def anchored_pairLoop)
     (auto simp: anchored_def initialState_def split: option.splits)

lemma anchored_runCommands: "anchored st \<Longrightarrow> anchored (runCommands st cmds)"
  by (induction cmds arbitrary: st) (auto simp: runCommands_simps anchored_applyCommand)

lemma anchored_reached: "anchored (runCommands initialState cmds)"
  by (rule anchored_runCommands) (simp add: anchored_def)

lemma readPairs_length: "readPairs numbers \<noteq> [] \<Longrightarrow> 2 \<le> length numbers"
  by (induction numbers rule: induct_list012) simp_all

lemma applyCommand_relative:
  assumes "cmd = CHR ''m'' \<or> cmd = CHR ''l''" and "2 \<le> length (matchNumbers data)"
  shows "applyCommand cmd data st = pairLoop (toUpperCase cmd) True True (matchNumbers data) st"
  using assms by (auto simp: applyCommand_def commandCase Let_def)

text \<open>
  C8. In a relative command every coordinate pair is added to the point resolved last,
  so the pairs of one command add up: after \<^verbatim>\<open>l\<close> the current subpath has the points
  \<open>accumulate p pairs\<close> appended, after \<^verbatim>\<open>m\<close> they are the points of a new subpath,
  where \<open>p\<close> is the current point. \<^verbatim>\<open>Z\<close> marks the current subpath closed and puts the
  current point back on its first point, in every state that the parser reaches, so
  that a relative command after it goes on from there. The literal example
  \<^verbatim>\<open>M0 0l1 0l0 1\<close> gives one open subpath with the points \<open>(0,0)\<close>, \<open>(1,0)\<close>, \<open>(1,1)\<close>.
\<close>

theorem C8_relative_pairs_accumulate:
  "(\<forall>c p. current st = Some c \<and> currentPoint st = Some p \<longrightarrow>
      applyCommand (CHR ''l'') data st
      = st\<lparr>current := Some (c\<lparr>points := points c @ accumulate p (readPairs (matchNumbers data))\<rparr>),
           currentPoint := Some (last (p # accumulate p (readPairs (matchNumbers data))))\<rparr>)
   \<and> (\<forall>p d ds. currentPoint st = Some p \<and> readPairs (matchNumbers data) = d # ds \<longrightarrow>
      applyCommand (CHR ''m'') data st
      = (startSubpath (hd (accumulate p (d # ds))) st)
          \<lparr>current := Some \<lparr>points = accumulate p (d # ds), closed_flag = False\<rparr>,
           currentPoint := Some (last (accumulate p (d # ds)))\<rparr>)
   \<and> (\<forall>c. current (runCommands initialState cmds) = Some c \<longrightarrow>
      currentPoint (applyCommand (CHR ''Z'') data (runCommands initialState cmds))
        = Some (hd (points c))
      \<and> current (applyCommand (CHR ''Z'') data (runCommands initialState cmds))
        = Some (c\<lparr>closed_flag := True\<rparr>))
   \<and> parsePathData ''M0 0l1 0l0 1''
       = [\<lparr>points = [\<lparr>px = 0, py = 0\<rparr>, \<lparr>px = 1, py = 0\<rparr>, \<lparr>px = 1, py = 1\<rparr>],
           closed_flag = False\<rparr>]
   \<and> parsePathData ''M1 1l1 0Zl0 1''
       = [\<lparr>points = [\<lparr>px = 1, py = 1\<rparr>, \<lparr>px = 2, py = 1\<rparr>, \<lparr>px = 1, py = 2\<rparr>],
           closed_flag = True\<rparr>]"
proof (intro conjI allI impI)
  fix c p
  assume a: "current st = Some c \<and> currentPoint st = Some p"
  let ?ns = "matchNumbers data"
  show "applyCommand (CHR ''l'') data st
      = st\<lparr>current := Some (c\<lparr>points := points c @ accumulate p (readPairs ?ns)\<rparr>),
           currentPoint := Some (last (p # accumulate p (readPairs ?ns)))\<rparr>"
  proof (cases "2 \<le> length ?ns")
    case True
    have "CHR ''L'' = CHR ''L'' \<or> (CHR ''L'' = CHR ''M'' \<and> \<not> True)" by simp
    from pairLoop_relative_append [OF conjunct1 [OF a] conjunct2 [OF a] this, of ?ns]
    show ?thesis using True by (simp add: applyCommand_relative commandCase)
  next
    case False
    then have "readPairs ?ns = []" using readPairs_length [of ?ns] by auto
    with False a show ?thesis by (simp add: applyCommand_def commandCase)
  qed
next
  fix p d ds
  assume a: "currentPoint st = Some p \<and> readPairs (matchNumbers data) = d # ds"
  then have "2 \<le> length (matchNumbers data)" using readPairs_length [of "matchNumbers data"] by simp
  then have "applyCommand (CHR ''m'') data st
      = pairLoop (CHR ''M'') True True (matchNumbers data) st"
    by (simp add: applyCommand_relative commandCase)
  also have "\<dots> = (startSubpath (hd (accumulate p (d # ds))) st)
          \<lparr>current := Some \<lparr>points = accumulate p (d # ds), closed_flag = False\<rparr>,
           currentPoint := Some (last (accumulate p (d # ds)))\<rparr>"
    using a by (simp add: pairLoop_relative_first resolvePoint_def Let_def startSubpath_def)
  finally show "applyCommand (CHR ''m'') data st
      = (startSubpath (hd (accumulate p (d # ds))) st)
          \<lparr>current := Some \<lparr>points = accumulate p (d # ds), closed_flag = False\<rparr>,
           currentPoint := Some (last (accumulate p (d # ds)))\<rparr>" .
next
  fix c
  assume c: "current (runCommands initialState cmds) = Some c"
  with anchored_reached [of cmds]
  have "subpathStart (runCommands initialState cmds) = Some (hd (points c))"
    by (auto simp: anchored_def initialState_def)
  with c show "currentPoint (applyCommand (CHR ''Z'') data (runCommands initialState cmds))
      = Some (hd (points c))"
    and "current (applyCommand (CHR ''Z'') data (runCommands initialState cmds))
      = Some (c\<lparr>closed_flag := True\<rparr>)"
    by (simp_all add: applyCommand_Z)
next
  show "parsePathData ''M0 0l1 0l0 1''
       = [\<lparr>points = [\<lparr>px = 0, py = 0\<rparr>, \<lparr>px = 1, py = 0\<rparr>, \<lparr>px = 1, py = 1\<rparr>],
           closed_flag = False\<rparr>]"
    by (simp add: parse_eval scan_eval Let_def)
next
  show "parsePathData ''M1 1l1 0Zl0 1''
       = [\<lparr>points = [\<lparr>px = 1, py = 1\<rparr>, \<lparr>px = 2, py = 1\<rparr>, \<lparr>px = 1, py = 2\<rparr>],
           closed_flag = True\<rparr>]"
    by (simp add: parse_eval scan_eval Let_def)
qed

theorem C8_witness:
  "applyCommand (CHR ''l'') ''1 0 0 1''
     \<lparr>subpaths = [], current = Some \<lparr>points = [\<lparr>px = 0, py = 0\<rparr>], closed_flag = False\<rparr>,
      currentPoint = Some \<lparr>px = 0, py = 0\<rparr>, subpathStart = Some \<lparr>px = 0, py = 0\<rparr>\<rparr>
   = \<lparr>subpaths = [],
      current = Some \<lparr>points = [\<lparr>px = 0, py = 0\<rparr>, \<lparr>px = 1, py = 0\<rparr>, \<lparr>px = 1, py = 1\<rparr>],
                      closed_flag = False\<rparr>,
      currentPoint = Some \<lparr>px = 1, py = 1\<rparr>, subpathStart = Some \<lparr>px = 0, py = 0\<rparr>\<rparr>
   \<and> currentPoint (applyCommand (CHR ''Z'') ''1 0 0 1''
        (runCommands initialState [(CHR ''M'', ''1 1''), (CHR ''l'', ''1 0'')]))
     = Some \<lparr>px = 1, py = 1\<rparr>"
proof -
  let ?st = "\<lparr>subpaths = [], current = Some \<lparr>points = [\<lparr>px = 0, py = 0\<rparr>], closed_flag = False\<rparr>,
      currentPoint = Some \<lparr>px = 0, py = 0\<rparr>, subpathStart = Some \<lparr>px = 0, py = 0\<rparr>\<rparr>"
  have r: "readPairs (matchNumbers ''1 0 0 1'') = [(1, 0), (0, 1)]"
    by (simp add: scan_eval Let_def)
  have c: "current (runCommands initialState [(CHR ''M'', ''1 1''), (CHR ''l'', ''1 0'')])
      = Some \<lparr>points = [\<lparr>px = 1, py = 1\<rparr>, \<lparr>px = 2, py = 1\<rparr>], closed_flag = False\<rparr>"
    by (simp add: parse_eval scan_eval Let_def)
  note t = C8_relative_pairs_accumulate [of ?st "''1 0 0 1''"
      "[(CHR ''M'', ''1 1''), (CHR ''l'', ''1 0'')]"]
  from t show ?thesis unfolding r c by simp
qed

text \<open>
  C10. When no point has been resolved yet, a relative command (\<^verbatim>\<open>m\<close> or \<^verbatim>\<open>l\<close>) takes its
  first coordinate pair as it stands, and the pairs after it add up from there. The
  parser is in such a state only as long as it is in its initial state. For example
  \<^verbatim>\<open>l1 2l3 4\<close> gives the points \<open>(1,2)\<close>, \<open>(4,6)\<close>.
\<close>

theorem C10_first_relative_pair_is_absolute:
  "(\<forall>vx vy ds.
      currentPoint (runCommands initialState cmds) = None
      \<and> (cmd = CHR ''l'' \<or> cmd = CHR ''m'')
      \<and> readPairs (matchNumbers data) = (vx, vy) # ds \<longrightarrow>
      applyCommand cmd data (runCommands initialState cmds)
      = \<lparr>subpaths = [],
         current = Some \<lparr>points = \<lparr>px = vx, py = vy\<rparr> # accumulate \<lparr>px = vx, py = vy\<rparr> ds,
                         closed_flag = False\<rparr>,
         currentPoint = Some (last (\<lparr>px = vx, py = vy\<rparr> # accumulate \<lparr>px = vx, py = vy\<rparr> ds)),
         subpathStart = Some \<lparr>px = vx, py = vy\<rparr>\<rparr>)
   \<and> parsePathData ''l1 2l3 4''
       = [\<lparr>points = [\<lparr>px = 1, py = 2\<rparr>, \<lparr>px = 4, py = 6\<rparr>], closed_flag = False\<rparr>]"
proof (intro conjI allI impI)
  fix vx vy ds
  assume a: "currentPoint (runCommands initialState cmds) = None
      \<and> (cmd = CHR ''l'' \<or> cmd = CHR ''m'')
      \<and> readPairs (matchNumbers data) = (vx, vy) # ds"
  then have st: "runCommands initialState cmds = initialState"
    using anchored_reached [of cmds] by (auto simp: anchored_def split: option.splits)
  from a have cmd: "cmd = CHR ''m'' \<or> cmd = CHR ''l''" by auto
  then have up: "toUpperCase cmd = CHR ''M'' \<or> toUpperCase cmd = CHR ''L''"
    by (auto simp: commandCase)
  from a have "2 \<le> length (matchNumbers data)"
    using readPairs_length [of "matchNumbers data"] by simp
  from applyCommand_relative [OF cmd this, of initialState] a up
  show "applyCommand cmd data (runCommands initialState cmds)
      = \<lparr>subpaths = [],
         current = Some \<lparr>points = \<lparr>px = vx, py = vy\<rparr> # accumulate \<lparr>px = vx, py = vy\<rparr> ds,
                         closed_flag = False\<rparr>,
         currentPoint = Some (last (\<lparr>px = vx, py = vy\<rparr> # accumulate \<lparr>px = vx, py = vy\<rparr> ds)),
         subpathStart = Some \<lparr>px = vx, py = vy\<rparr>\<rparr>"
    unfolding st
    by (auto simp: pairLoop_relative_first [OF up] resolvePoint_def Let_def initialState_def
        startSubpath_def appendPoint_def flushCurrent_def)
next
  show "parsePathData ''l1 2l3 4''
       = [\<lparr>points = [\<lparr>px = 1, py = 2\<rparr>, \<lparr>px = 4, py = 6\<rparr>], closed_flag = False\<rparr>]"
    by (simp add: parse_eval scan_eval Let_def)
qed

theorem C10_witness:
  "applyCommand (CHR ''l'') ''1 2 3 4'' (runCommands initialState [(CHR ''Z'', [])])
   = \<lparr>subpaths = [],
      current = Some \<lparr>points = [\<lparr>px = 1, py = 2\<rparr>, \<lparr>px = 4, py = 6\<rparr>], closed_flag = False\<rparr>,
      currentPoint = Some \<lparr>px = 4, py = 6\<rparr>,
      subpathStart = Some \<lparr>px = 1, py = 2\<rparr>\<rparr>"
proof -
  have r: "readPairs (matchNumbers ''1 2 3 4'') = [(1, 2), (3, 4)]"
    by (simp add: scan_eval Let_def)
  have c: "currentPoint (runCommands initialState [(CHR ''Z'', [])]) = None"
    by (simp add: parse_eval)
  from C10_first_relative_pair_is_absolute [of "[(CHR ''Z'', [])]" "CHR ''l''" "''1 2 3 4''"]
  show ?thesis unfolding r c by simp
qed

section \<open>The round trip\<close>

lemma rounded6_error:
  assumes "\<bar>v\<bar> < 10 ^ 21"
  shows "\<bar>rounded6 v - v\<bar> \<le> 1 / (2 * 10 ^ 6)"
proof -
  define x where "x = \<bar>v\<bar> * 10 ^ 6 + 1 / 2"
  have x0: "0 \<le> x" by (simp add: x_def)
  then have "0 \<le> \<lfloor>x\<rfloor>" by simp
  then have n: "real (millionths v) = of_int \<lfloor>x\<rfloor>" by (simp add: millionths_def x_def)
  have "of_int \<lfloor>x\<rfloor> \<le> x" and "x < of_int \<lfloor>x\<rfloor> + 1" by linarith+
  then have "\<bar>real (millionths v) - \<bar>v\<bar> * 10 ^ 6\<bar> \<le> 1 / 2"
    unfolding n x_def by linarith
  then have "\<bar>real (millionths v) - \<bar>v\<bar> * 10 ^ 6\<bar> / 10 ^ 6 \<le> (1 / 2) / 10 ^ 6"
    by (rule divide_right_mono) simp
  moreover have "real (millionths v) / 10 ^ 6 - \<bar>v\<bar> = (real (millionths v) - \<bar>v\<bar> * 10 ^ 6) / 10 ^ 6"
    by (simp add: diff_divide_distrib)
  ultimately have e: "\<bar>real (millionths v) / 10 ^ 6 - \<bar>v\<bar>\<bar> \<le> 1 / (2 * 10 ^ 6)"
    by (simp only: abs_divide) simp
  have "rounded6 v - v = sgn v * (real (millionths v) / 10 ^ 6 - \<bar>v\<bar>)"
    using assms by (simp add: rounded6_def algebra_simps sgn_if)
  then have "\<bar>rounded6 v - v\<bar> = \<bar>sgn v\<bar> * \<bar>real (millionths v) / 10 ^ 6 - \<bar>v\<bar>\<bar>"
    by (simp add: abs_mult)
  also have "\<dots> \<le> \<bar>real (millionths v) / 10 ^ 6 - \<bar>v\<bar>\<bar>"
    by (simp add: sgn_if)
  finally show ?thesis using e by linarith
qed

text \<open>
  C1. For a non-empty sequence of subpaths that have at least one point each, parsing
  the serialized text gives the same subpaths in the same order, with the same closed
  flags, every coordinate rounded as \<open>formatNumber\<close> rounds it (\<open>rounded6\<close>), which
  below \<open>10^21\<close> is within half of \<open>10^-6\<close> of the coordinate.
\<close>

theorem C1_parse_serialize_round_trip:
  assumes "s \<noteq> []" and "\<forall>sp\<in>set s. points sp \<noteq> []"
  shows "parsePathData (serializeSubpaths s) = map roundSubpath s
         \<and> (\<forall>v. \<bar>v\<bar> < 10 ^ 21 \<longrightarrow> \<bar>rounded6 v - v\<bar> \<le> 1 / (2 * 10 ^ 6))"
proof -
  from assms(2) have "filter (\<lambda>sp. points sp \<noteq> []) s = s" by (simp add: filter_id_conv)
  then show ?thesis using parse_serialize [of s] rounded6_error by simp
qed

theorem C1_witness:
  "parsePathData (serializeSubpaths
     [\<lparr>points = [\<lparr>px = 1 / 3, py = - 2\<rparr>, \<lparr>px = 5 / 2, py = 1 / 10 ^ 7\<rparr>], closed_flag = True\<rparr>,
      \<lparr>points = [\<lparr>px = 10 ^ 21, py = - 1234567 / 10 ^ 7\<rparr>], closed_flag = False\<rparr>])
   = [\<lparr>points = [\<lparr>px = 333333 / 10 ^ 6, py = - 2\<rparr>, \<lparr>px = 5 / 2, py = 0\<rparr>], closed_flag = True\<rparr>,
      \<lparr>points = [\<lparr>px = 10 ^ 21, py = - 123457 / 10 ^ 6\<rparr>], closed_flag = False\<rparr>]"
  using C1_parse_serialize_round_trip
    [of "[\<lparr>points = [\<lparr>px = 1 / 3, py = - 2\<rparr>, \<lparr>px = 5 / 2, py = 1 / 10 ^ 7\<rparr>], closed_flag = True\<rparr>,
      \<lparr>points = [\<lparr>px = 10 ^ 21, py = - 1234567 / 10 ^ 7\<rparr>], closed_flag = False\<rparr>]"]
  by (simp add: roundSubpath_def roundPoint_def rounded6_def millionths_def)

section \<open>The literal example of the specification\<close>

text \<open>
  C7. \<^verbatim>\<open>parsePathData("M0 0L1 0L1 1L0 1Z")\<close> is one closed subpath with the points
  \<open>(0,0)\<close>, \<open>(1,0)\<close>, \<open>(1,1)\<close>, \<open>(0,1)\<close> in this order, and \<^verbatim>\<open>serializeSubpaths\<close> of it is
  the text \<^verbatim>\<open>M0 0 L1 0 L1 1 L0 1 Z\<close>.
\<close>

theorem C7_literal_square:
  "parsePathData ''M0 0L1 0L1 1L0 1Z''
   = [\<lparr>points = [\<lparr>px = 0, py = 0\<rparr>, \<lparr>px = 1, py = 0\<rparr>, \<lparr>px = 1, py = 1\<rparr>, \<lparr>px = 0, py = 1\<rparr>],
       closed_flag = True\<rparr>]
   \<and> serializeSubpaths (parsePathData ''M0 0L1 0L1 1L0 1Z'') = ''M0 0 L1 0 L1 1 L0 1 Z''"
proof -
  have p: "parsePathData ''M0 0L1 0L1 1L0 1Z''
      = [\<lparr>points = [\<lparr>px = 0, py = 0\<rparr>, \<lparr>px = 1, py = 0\<rparr>, \<lparr>px = 1, py = 1\<rparr>, \<lparr>px = 0, py = 1\<rparr>],
          closed_flag = True\<rparr>]"
    by (simp add: parse_eval scan_eval Let_def)
  have f: "formatNumber 0 = ''0''" "formatNumber 1 = ''1''"
    by (simp_all add: format_eval)
  show ?thesis unfolding p by (simp add: serialize_eval f)
qed

end
